theory Spec2Isabelle
  imports Main "HOL-Library.Word"
begin


section \<open>Data model\<close>

text \<open>
  The repository holds three iterations of one browser application that moves a file
  between two peers over a PeerJS data channel. Two of them stream the file in chunks:
  \<^item> the ACK-gated iteration (\<^verbatim>\<open>src/unnamed/part_000\<close>): messages \<^verbatim>\<open>HEADER\<close>,
    \<^verbatim>\<open>ACK\<close>, \<^verbatim>\<open>CHUNK\<close>;
  \<^item> the start/chunk/end iteration (\<^verbatim>\<open>src/unnamed/part_001\<close>): messages
    \<^verbatim>\<open>file-start\<close>, \<^verbatim>\<open>stream-chunk\<close>, \<^verbatim>\<open>file-end\<close>.
  Both are embedded here. An \<^verbatim>\<open>ArrayBuffer\<close> is a list of bytes, a \<^verbatim>\<open>File\<close> is its name,
  its MIME type and its bytes, and a \<^verbatim>\<open>Blob\<close> is the concatenation of its parts with a
  MIME type.
\<close>

type_synonym byte = "8 word"
type_synonym bytes = "byte list"

record jsfile =
  fname :: string
  ftype :: string
  content :: bytes

definition fsize :: "jsfile \<Rightarrow> nat" where
  "fsize f = length (content f)"

text \<open>\<^verbatim>\<open>file.slice(a, b)\<close>: the bytes from \<open>a\<close> up to \<open>b\<close>, cut at the end of the file.\<close>

definition slice :: "jsfile \<Rightarrow> nat \<Rightarrow> nat \<Rightarrow> bytes" where
  "slice f a b = take (b - a) (drop a (content f))"

record blob =
  blobBytes :: bytes
  blobType :: string

text \<open>
  \<^verbatim>\<open>new Blob(parts, { type })\<close>. The constructor keeps the type only if all its characters
  are printable ASCII (U+0020 to U+007E), and then in lower case; otherwise the blob's type
  is empty.
\<close>

definition asciiLower :: "char \<Rightarrow> char" where
  "asciiLower c =
     (case map_of (zip ''ABCDEFGHIJKLMNOPQRSTUVWXYZ'' ''abcdefghijklmnopqrstuvwxyz'') c of
        Some l \<Rightarrow> l
      | None \<Rightarrow> c)"

definition blobTypeOf :: "string \<Rightarrow> string" where
  "blobTypeOf t =
     (if list_all (\<lambda>c. 32 \<le> (of_char c :: nat) \<and> (of_char c :: nat) \<le> 126) t
      then map asciiLower t else [])"

definition Blob :: "bytes list \<Rightarrow> string \<Rightarrow> blob" where
  "Blob parts t = \<lparr>blobBytes = concat parts, blobType = blobTypeOf t\<rparr>"

text \<open>
  A message is the JavaScript object put on the channel. The programs build six shapes
  of object:
  \<^item> \<open>Announce ty i n s\<close> is \<^verbatim>\<open>{type: ty, id: i, name: n, size: s}\<close>, the object of
    \<^verbatim>\<open>initiateSend\<close>. Its \<^verbatim>\<open>type\<close> is any string: the literal in \<^verbatim>\<open>initiateSend\<close> has
    the key \<^verbatim>\<open>type\<close> twice, first \<^verbatim>\<open>'HEADER'\<close> and then \<^verbatim>\<open>file.type\<close>, and the later
    one is the value of the field;
  \<^item> \<open>ACK i\<close> is \<^verbatim>\<open>{type: 'ACK', id: i}\<close>;
  \<^item> \<open>CHUNK i c\<close> is \<^verbatim>\<open>{type: 'CHUNK', id: i, chunk: c}\<close>;
  \<^item> \<open>FileStart f n s m\<close> is \<^verbatim>\<open>{type: 'file-start', fileId: f, name: n, size: s, mime: m}\<close>;
  \<^item> \<open>StreamChunk f c\<close> is \<^verbatim>\<open>{type: 'stream-chunk', fileId: f, chunk: c}\<close>;
  \<^item> \<open>FileEnd f\<close> is \<^verbatim>\<open>{type: 'file-end', fileId: f}\<close>.
  Ids and names are strings, sizes are non-negative integers, chunks are
  \<^verbatim>\<open>ArrayBuffer\<close>s. A field that a shape does not have reads as \<^verbatim>\<open>undefined\<close>; the
  handlers below say what they do with it.
\<close>

datatype message =
    Announce string string string nat
  | ACK string
  | CHUNK string bytes
  | FileStart string string nat string
  | StreamChunk string bytes
  | FileEnd string

text \<open>The announce whose \<^verbatim>\<open>type\<close> is \<^verbatim>\<open>'HEADER'\<close>, the one the ACK-gated receiver
  tests for.\<close>

abbreviation HEADER :: "string \<Rightarrow> string \<Rightarrow> nat \<Rightarrow> message" where
  "HEADER i n s \<equiv> Announce ''HEADER'' i n s"

datatype sendingState = Idle | WaitingAck | Sending | Done

text \<open>
  A percentage shown in the interface. \<open>Ratio r s\<close> stands for
  \<^verbatim>\<open>Math.min(100, Math.round((r / s) * 100))\<close>, which the code computes in double
  precision; it is kept symbolic.
\<close>

datatype progress = Fixed nat | Ratio nat nat

text \<open>The lines the start/chunk/end iteration writes to its log, and the two console
  lines of the ACK-gated iteration, by their content.\<close>

datatype logmsg =
    LogFileStart string
  | LogFileEnd string
  | LogConnectionClosed
  | LogUnknownChunk string
  | LogFirstChunk nat
  | LogReceiving nat
  | LogBufferEmpty string
  | LogFinalizing nat nat
  | LogSuccess
  | LogStartingUpload string
  | LogUploadComplete
  | LogConnectionLost
  | LogHeaderReceived
  | LogAckReceived

text \<open>
  What a handler does besides changing the state it owns, in the order it does it:
  \<open>Send\<close> is \<^verbatim>\<open>conn.send\<close>, \<open>SetTimeout d\<close> is \<^verbatim>\<open>setTimeout(loop, d)\<close> re-entering the send
  loop after \<open>d\<close> ms, \<open>ResetTimer d\<close> is the timer that puts the upload display back to
  idle, \<open>AddLog\<close> is \<^verbatim>\<open>addLog\<close> or \<^verbatim>\<open>console.log\<close>, the others are React state setters
  of the sender.
\<close>

datatype effect =
    Send message
  | SetTimeout nat
  | ResetTimer nat
  | AddLog logmsg
  | SetSendingState sendingState
  | SetUploadProgress progress
  | SetCurrentFileName string

text \<open>
  What one run of the send loop's body sees of the channel: the data channel's
  \<^verbatim>\<open>bufferedAmount\<close> when the body starts, and \<^verbatim>\<open>connection.open\<close> when the file
  reader's \<^verbatim>\<open>onload\<close> fires. A list of these is the channel as seen by successive runs
  of the body; when the list ends the loop is still waiting for its timer.
\<close>

record env =
  bufferedAmount :: nat
  isOpen :: bool

definition CHUNK_SIZE :: nat where
  "CHUNK_SIZE = 16 * 1024"

section \<open>ACK-gated iteration: sender\<close>

record sender =
  fileToSendRef :: "jsfile option"
  conn :: bool

text \<open>
  \<^verbatim>\<open>initiateSend\<close>; the picked file may be missing, the id is the random string drawn.
  The object sent is \<^verbatim>\<open>{type: 'HEADER', id, name, size, type: file.type}\<close>, whose
  \<^verbatim>\<open>type\<close> field is \<^verbatim>\<open>file.type\<close>.
\<close>

definition initiateSend :: "jsfile option \<Rightarrow> string \<Rightarrow> sender \<Rightarrow> sender \<times> effect list" where
  "initiateSend picked fileId st =
     (case picked of
        None \<Rightarrow> (st, [])
      | Some f \<Rightarrow>
          if \<not> conn st then (st, [])
          else (st\<lparr>fileToSendRef := Some f\<rparr>,
                [SetCurrentFileName (fname f), SetUploadProgress (Fixed 0),
                 SetSendingState WaitingAck,
                 Send (Announce (ftype f) fileId (fname f) (fsize f))]))"

text \<open>\<^verbatim>\<open>sendLoop\<close> inside \<^verbatim>\<open>startStreamingFile\<close>, with the chunk size as a parameter
  \<open>c\<close> and the closure variable \<^verbatim>\<open>offset\<close> as an argument.\<close>

fun sendLoop :: "nat \<Rightarrow> jsfile \<Rightarrow> string \<Rightarrow> nat \<Rightarrow> env list \<Rightarrow> effect list" where
  "sendLoop c f fileId offset [] = []"
| "sendLoop c f fileId offset (e # es) =
     (if bufferedAmount e > 10 * 1024 * 1024 then
        SetTimeout 50 # sendLoop c f fileId offset es
      else if offset \<ge> fsize f then
        [SetUploadProgress (Fixed 100), SetSendingState Done, ResetTimer 3000]
      else if \<not> isOpen e then []
      else
        Send (CHUNK fileId (slice f offset (offset + c)))
          # SetUploadProgress (Ratio (offset + c) (fsize f))
          # SetTimeout 0
          # sendLoop c f fileId (offset + c) es)"

definition startStreamingFile :: "string \<Rightarrow> sender \<Rightarrow> env list \<Rightarrow> effect list" where
  "startStreamingFile fileId st es =
     SetSendingState Sending #
       (case fileToSendRef st of
          None \<Rightarrow> []
        | Some f \<Rightarrow> sendLoop CHUNK_SIZE f fileId 0 es)"

text \<open>The \<^verbatim>\<open>data\<close> listener that \<^verbatim>\<open>connectToHost\<close> puts on the sender's connection.\<close>

definition connectToHost_onData :: "message \<Rightarrow> sender \<Rightarrow> env list \<Rightarrow> effect list" where
  "connectToHost_onData m st es =
     (case m of
        ACK i \<Rightarrow> AddLog LogAckReceived # startStreamingFile i st es
      | Announce ty i n s \<Rightarrow>
          if ty = ''ACK'' then AddLog LogAckReceived # startStreamingFile i st es else []
      | _ \<Rightarrow> [])"

section \<open>Start/chunk/end iteration: sender\<close>

text \<open>\<^verbatim>\<open>sendNextChunk\<close> inside \<^verbatim>\<open>sendFile\<close>; it has no gate on \<^verbatim>\<open>bufferedAmount\<close>.\<close>

fun sendNextChunk :: "nat \<Rightarrow> jsfile \<Rightarrow> string \<Rightarrow> nat \<Rightarrow> env list \<Rightarrow> effect list" where
  "sendNextChunk c f fileId offset [] = []"
| "sendNextChunk c f fileId offset (e # es) =
     (if offset \<ge> fsize f then
        [AddLog LogUploadComplete, Send (FileEnd fileId),
         SetUploadProgress (Fixed 100), ResetTimer 2500]
      else if \<not> isOpen e then [AddLog LogConnectionLost]
      else
        Send (StreamChunk fileId (slice f offset (offset + c)))
          # SetUploadProgress (Ratio (offset + c) (fsize f))
          # SetTimeout 0
          # sendNextChunk c f fileId (offset + c) es)"

definition sendFile :: "jsfile option \<Rightarrow> string \<Rightarrow> bool \<Rightarrow> env list \<Rightarrow> effect list" where
  "sendFile picked fileId connected es =
     (case picked of
        None \<Rightarrow> []
      | Some f \<Rightarrow>
          if \<not> connected then []
          else [SetCurrentFileName (fname f), SetUploadProgress (Fixed 1),
                AddLog (LogStartingUpload (fname f)),
                Send (FileStart fileId (fname f) (fsize f) (ftype f)),
                SetTimeout 100]
               @ sendNextChunk CHUNK_SIZE f fileId 0 es)"

section \<open>Tables keyed by transfer id\<close>

text \<open>
  Both receivers keep their buffers in a plain object created as \<^verbatim>\<open>{}\<close> and indexed by
  the id of the message. Such an object has its own properties and a prototype:
  \<^item> reading a key that is not an own property goes to the prototype, at first
    \<^verbatim>\<open>Object.prototype\<close>, so that the names of its members (\<^verbatim>\<open>constructor\<close>,
    \<^verbatim>\<open>toString\<close>, ...) read as functions and not as \<^verbatim>\<open>undefined\<close>;
  \<^item> the key \<^verbatim>\<open>__proto__\<close> reads and writes the prototype itself: assigning a buffer to
    it makes the buffer the prototype, and from then on the buffer's fields are inherited
    under their names.
  \<open>own\<close> holds the own properties and \<open>proto\<close> the buffer installed as prototype, if any.
  A read gives a buffer (\<open>Entry\<close>), a value that is not a buffer and is truthy
  (\<open>Alien\<close>: a function, an object, a non-empty string, a number other than 0, an array),
  or \<^verbatim>\<open>undefined\<close> or another falsy value (\<open>Absent\<close>).
\<close>

record 'b table =
  own :: "string \<Rightarrow> 'b option"
  proto :: "'b option"

datatype 'b slot = Absent | Alien | Entry 'b

definition emptyTable :: "'b table" where
  "emptyTable = \<lparr>own = (\<lambda>_. None), proto = None\<rparr>"

definition objectPrototypeNames :: "string list" where
  "objectPrototypeNames =
     [''constructor'', ''__defineGetter__'', ''__defineSetter__'', ''hasOwnProperty'',
      ''__lookupGetter__'', ''__lookupSetter__'', ''isPrototypeOf'', ''propertyIsEnumerable'',
      ''toString'', ''valueOf'', ''__proto__'', ''toLocaleString'']"

text \<open>
  \<^verbatim>\<open>table[k]\<close>. \<open>fieldOf b k\<close> says whether the buffer \<open>b\<close> has a field named \<open>k\<close> and,
  if so, whether its value is truthy.
\<close>

definition getSlot :: "('b \<Rightarrow> string \<Rightarrow> bool option) \<Rightarrow> 'b table \<Rightarrow> string \<Rightarrow> 'b slot" where
  "getSlot fieldOf t k =
     (if k = ''__proto__'' then (case proto t of Some b \<Rightarrow> Entry b | None \<Rightarrow> Alien)
      else
        case own t k of
          Some b \<Rightarrow> Entry b
        | None \<Rightarrow>
            (case (case proto t of Some p \<Rightarrow> fieldOf p k | None \<Rightarrow> None) of
               Some truthy \<Rightarrow> if truthy then Alien else Absent
             | None \<Rightarrow> if k \<in> set objectPrototypeNames then Alien else Absent))"

text \<open>\<^verbatim>\<open>table[k] = b\<close>, also the update in place of the buffer read at \<open>k\<close>.\<close>

definition putSlot :: "'b table \<Rightarrow> string \<Rightarrow> 'b \<Rightarrow> 'b table" where
  "putSlot t k b =
     (if k = ''__proto__'' then t\<lparr>proto := Some b\<rparr> else t\<lparr>own := (own t)(k \<mapsto> b)\<rparr>)"

text \<open>\<^verbatim>\<open>delete table[k]\<close>: removes an own property, and nothing else.\<close>

definition deleteSlot :: "'b table \<Rightarrow> string \<Rightarrow> 'b table" where
  "deleteSlot t k = (if k = ''__proto__'' then t else t\<lparr>own := (own t)(k := None)\<rparr>)"

text \<open>The property key of a value that is a string or \<^verbatim>\<open>undefined\<close>.\<close>

definition keyOf :: "string option \<Rightarrow> string" where
  "keyOf v = (case v of None \<Rightarrow> ''undefined'' | Some k \<Rightarrow> k)"

text \<open>
  What a listener does with a message: it returns, leaving a new state and its effects, or
  it throws a \<^verbatim>\<open>TypeError\<close> after some effects. Nothing is said of the state a throw
  leaves behind, and a succession of messages is followed up to the first throw.
\<close>

datatype 's outcome = Returned 's "effect list" | Threw "effect list"

fun after :: "effect list \<Rightarrow> 's outcome \<Rightarrow> 's outcome" where
  "after e (Returned st e') = Returned st (e @ e')"
| "after e (Threw e') = Threw (e @ e')"

fun andThen :: "'s outcome \<Rightarrow> ('s \<Rightarrow> 's outcome) \<Rightarrow> 's outcome" where
  "andThen (Returned st e) h = after e (h st)"
| "andThen (Threw e) h = Threw e"

section \<open>ACK-gated iteration: receiver\<close>

record fileMeta =
  fm_name :: string
  fm_size :: nat
  fm_type :: string
  receivedBytes :: nat
  fm_chunks :: "bytes list"
  lastUpdate :: nat

definition metaFields :: "fileMeta \<Rightarrow> string \<Rightarrow> bool option" where
  "metaFields m k =
     (if k = ''name'' then Some (fm_name m \<noteq> [])
      else if k = ''size'' then Some (fm_size m \<noteq> 0)
      else if k = ''type'' then Some (fm_type m \<noteq> [])
      else if k = ''receivedBytes'' then Some (receivedBytes m \<noteq> 0)
      else if k = ''chunks'' then Some True
      else if k = ''lastUpdate'' then Some (lastUpdate m \<noteq> 0)
      else None)"

definition getMeta :: "fileMeta table \<Rightarrow> string \<Rightarrow> fileMeta slot" where
  "getMeta = getSlot metaFields"

datatype cardStatus = Receiving | Completed

text \<open>
  A card of the receiver's file list. \<open>sizeDisplay\<close> holds the number that
  \<^verbatim>\<open>formatBytes\<close> turns into a display string; \<open>url\<close> is the object URL, modelled by the
  blob it points to.
\<close>

record card =
  card_id :: string
  card_name :: string
  sizeDisplay :: nat
  card_progress :: progress
  card_status :: cardStatus
  url :: "blob option"

record host =
  incomingFilesRef :: "fileMeta table"
  files :: "card list"
  hostConn :: bool

text \<open>\<^verbatim>\<open>finalizeFile\<close>. Its only caller has just read and updated the buffer at \<open>id\<close>, so
  the read gives a buffer; the other case is never taken from the handler.\<close>

definition finalizeFile :: "string \<Rightarrow> host \<Rightarrow> host" where
  "finalizeFile i st =
     (case getMeta (incomingFilesRef st) i of
        Entry meta \<Rightarrow>
          st\<lparr>files :=
                map (\<lambda>f. if card_id f = i
                          then f\<lparr>card_status := Completed, card_progress := Fixed 100,
                                 url := Some (Blob (fm_chunks meta) (fm_type meta))\<rparr>
                          else f) (files st),
              incomingFilesRef := putSlot (incomingFilesRef st) i (meta\<lparr>fm_chunks := []\<rparr>)\<rparr>
      | _ \<Rightarrow> st)"

text \<open>
  \<^verbatim>\<open>handleIncomingData\<close>; \<open>now\<close> is the reading of \<^verbatim>\<open>Date.now()\<close>.
  \<^item> The first branch is taken by an object whose \<^verbatim>\<open>type\<close> is \<^verbatim>\<open>'HEADER'\<close>; the type
    kept in the buffer is read from that same field.
  \<^item> The second is taken by an object whose \<^verbatim>\<open>type\<close> is \<^verbatim>\<open>'CHUNK'\<close>. When the table
    gives nothing for the id the handler returns; when it gives a value that is not a
    buffer, \<^verbatim>\<open>fileMeta.chunks\<close> is \<^verbatim>\<open>undefined\<close> and \<^verbatim>\<open>push\<close> throws. An announce
    with that type has no \<^verbatim>\<open>chunk\<close>: on a buffer \<^verbatim>\<open>undefined\<close> is pushed and
    \<^verbatim>\<open>chunk.byteLength\<close> throws.
  \<^item> Every other object is ignored.
\<close>

definition handleIncomingData :: "nat \<Rightarrow> message \<Rightarrow> host \<Rightarrow> host outcome" where
  "handleIncomingData now data st =
     (case data of
        Announce ty i n s \<Rightarrow>
          if ty = ''HEADER'' then
            Returned
              (st\<lparr>incomingFilesRef := putSlot (incomingFilesRef st) i
                     \<lparr>fm_name = n, fm_size = s, fm_type = ty, receivedBytes = 0,
                      fm_chunks = [], lastUpdate = now\<rparr>,
                  files := \<lparr>card_id = i, card_name = n, sizeDisplay = s,
                            card_progress = Fixed 0, card_status = Receiving, url = None\<rparr>
                           # files st\<rparr>)
              [AddLog LogHeaderReceived, Send (ACK i)]
          else if ty = ''CHUNK'' then
            (case getMeta (incomingFilesRef st) i of
               Absent \<Rightarrow> Returned st []
             | _ \<Rightarrow> Threw [])
          else Returned st []
      | CHUNK i chunk \<Rightarrow>
          (case getMeta (incomingFilesRef st) i of
             Absent \<Rightarrow> Returned st []
           | Alien \<Rightarrow> Threw []
           | Entry meta \<Rightarrow>
               let m1 = meta\<lparr>fm_chunks := fm_chunks meta @ [chunk],
                             receivedBytes := receivedBytes meta + length chunk\<rparr>;
                   upd = (now - lastUpdate m1 > 500 \<or> receivedBytes m1 = fm_size m1);
                   m2 = (if upd then m1\<lparr>lastUpdate := now\<rparr> else m1);
                   fs = (if upd
                         then map (\<lambda>f. if card_id f = i
                                        then f\<lparr>card_progress :=
                                                 Ratio (receivedBytes m1) (fm_size m1)\<rparr>
                                        else f) (files st)
                         else files st);
                   st1 = st\<lparr>incomingFilesRef := putSlot (incomingFilesRef st) i m2,
                            files := fs\<rparr>
               in if receivedBytes m2 \<ge> fm_size m2 then Returned (finalizeFile i st1) []
                  else Returned st1 [])
      | _ \<Rightarrow> Returned st [])"

text \<open>
  \<^verbatim>\<open>connection.on('data', (data) => handleIncomingData(data, connection))\<close>: the
  listener runs once for each message, in arrival order; each message comes with the
  clock reading at its arrival.
\<close>

fun hostA_run :: "(nat \<times> message) list \<Rightarrow> host \<Rightarrow> host outcome" where
  "hostA_run [] st = Returned st []"
| "hostA_run ((now, m) # ms) st = andThen (handleIncomingData now m st) (hostA_run ms)"

text \<open>The \<^verbatim>\<open>close\<close> listener of \<^verbatim>\<open>startHosting\<close> in the ACK-gated iteration.\<close>

definition hostA_onClose :: "host \<Rightarrow> host \<times> effect list" where
  "hostA_onClose st = (st\<lparr>hostConn := False\<rparr>, [])"

section \<open>Start/chunk/end iteration: receiver\<close>

text \<open>A buffer; its \<open>type\<close> is \<^verbatim>\<open>undefined\<close> when the object that started it had no
  \<^verbatim>\<open>mime\<close>, and the fallback buffer has no \<^verbatim>\<open>startTime\<close>.\<close>

record buffer =
  buf_name :: string
  buf_size :: nat
  buf_type :: "string option"
  received :: nat
  buf_chunks :: "bytes list"
  lastLog :: nat
  startTime :: "nat option"

definition bufferFields :: "buffer \<Rightarrow> string \<Rightarrow> bool option" where
  "bufferFields b k =
     (if k = ''name'' then Some (buf_name b \<noteq> [])
      else if k = ''size'' then Some (buf_size b \<noteq> 0)
      else if k = ''type'' then Some (buf_type b \<noteq> None \<and> buf_type b \<noteq> Some [])
      else if k = ''received'' then Some (received b \<noteq> 0)
      else if k = ''chunks'' then Some True
      else if k = ''lastLog'' then Some (lastLog b \<noteq> 0)
      else if k = ''startTime'' then map_option (\<lambda>t. t \<noteq> 0) (startTime b)
      else None)"

definition getBuffer :: "buffer table \<Rightarrow> string \<Rightarrow> buffer slot" where
  "getBuffer = getSlot bufferFields"

text \<open>An entry of the receiver's file list; \<open>entry_id\<close> is the \<^verbatim>\<open>fileId\<close> of the finish
  message, \<^verbatim>\<open>undefined\<close> if it had none; \<open>entry_size\<close> is the byte count that the code
  shows in KB.\<close>

record fileEntry =
  entry_id :: "string option"
  entry_name :: string
  entry_size :: nat
  entry_url :: blob
  timestamp :: nat

record debugHost =
  incomingBuffer :: "buffer table"
  receivedFiles :: "fileEntry list"
  debugConn :: bool

text \<open>
  \<^verbatim>\<open>handleStreamChunk\<close>, given the \<^verbatim>\<open>fileId\<close> and the \<^verbatim>\<open>chunk\<close> of the object, each
  possibly \<^verbatim>\<open>undefined\<close>. \<open>floorPct r s\<close> is \<^verbatim>\<open>Math.floor((r / s) * 100)\<close>, a double
  precision computation that decides which progress lines are logged; it is a parameter.
  \<^item> When the table gives a value that is not a buffer, the fallback is skipped,
    \<^verbatim>\<open>buffer.chunks\<close> is \<^verbatim>\<open>undefined\<close> and \<^verbatim>\<open>push\<close> throws.
  \<^item> When it gives nothing, the warning is logged and the fallback buffer is stored.
  \<^item> Without a chunk, \<^verbatim>\<open>undefined\<close> is pushed and \<^verbatim>\<open>chunk.byteLength\<close> throws.
\<close>

definition handleStreamChunk ::
  "(nat \<Rightarrow> nat \<Rightarrow> nat) \<Rightarrow> string option \<Rightarrow> bytes option \<Rightarrow> debugHost \<Rightarrow> debugHost outcome" where
  "handleStreamChunk floorPct fileId chunk st =
     (let k = keyOf fileId;
          slot = getBuffer (incomingBuffer st) k;
          warning = (if slot = Absent then [AddLog (LogUnknownChunk k)] else [])
      in if slot = Alien then Threw []
         else
           case chunk of
             None \<Rightarrow> Threw warning
           | Some ch \<Rightarrow>
               let b0 = (case slot of
                           Entry b \<Rightarrow> b
                         | _ \<Rightarrow> \<lparr>buf_name = ''Unknown File'', buf_size = 0,
                                  buf_type = Some ''application/octet-stream'', received = 0,
                                  buf_chunks = [], lastLog = 0, startTime = None\<rparr>);
                   b1 = b0\<lparr>buf_chunks := buf_chunks b0 @ [ch],
                           received := received b0 + length ch\<rparr>;
                   percent = floorPct (received b1) (buf_size b1);
                   logged = (buf_size b1 > 0 \<and> percent mod 20 = 0 \<and> percent \<noteq> lastLog b1);
                   b2 = (if logged then b1\<lparr>lastLog := percent\<rparr> else b1)
               in Returned
                    (st\<lparr>incomingBuffer := putSlot (incomingBuffer st) k b2\<rparr>)
                    (warning
                     @ (if length (buf_chunks b1) = 1 then [AddLog (LogFirstChunk (length ch))]
                        else [])
                     @ (if logged then [AddLog (LogReceiving percent)] else [])))"

text \<open>
  \<^verbatim>\<open>finishFile\<close>, given the \<^verbatim>\<open>fileId\<close> of the object, possibly \<^verbatim>\<open>undefined\<close>; \<open>now\<close>
  is the clock reading put in the entry's timestamp. When the table gives a value that is
  not a buffer, \<^verbatim>\<open>buffer.chunks\<close> is \<^verbatim>\<open>undefined\<close> and reading its \<^verbatim>\<open>length\<close> throws,
  before the \<^verbatim>\<open>try\<close> block. The \<^verbatim>\<open>try\<close> block builds a blob from array buffers, which
  does not throw; a buffer without a type gives a blob with the empty type.
\<close>

definition finishFile :: "nat \<Rightarrow> string option \<Rightarrow> debugHost \<Rightarrow> debugHost outcome" where
  "finishFile now fileId st =
     (let k = keyOf fileId in
      case getBuffer (incomingBuffer st) k of
        Absent \<Rightarrow> Returned st [AddLog (LogBufferEmpty k)]
      | Alien \<Rightarrow> Threw []
      | Entry b \<Rightarrow>
          if length (buf_chunks b) = 0 then Returned st [AddLog (LogBufferEmpty k)]
          else
            Returned
              (st\<lparr>receivedFiles :=
                    \<lparr>entry_id = fileId, entry_name = buf_name b, entry_size = received b,
                     entry_url = Blob (buf_chunks b) (case buf_type b of None \<Rightarrow> [] | Some t \<Rightarrow> t),
                     timestamp = now\<rparr>
                    # receivedFiles st,
                  incomingBuffer := deleteSlot (incomingBuffer st) k\<rparr>)
              [AddLog (LogFinalizing (length (buf_chunks b)) (received b)), AddLog LogSuccess])"

text \<open>
  The \<^verbatim>\<open>data\<close> listener of \<^verbatim>\<open>startHosting\<close> in the start/chunk/end iteration. An
  announce whose \<^verbatim>\<open>type\<close> is one of the three literals takes the same branch as the
  object built with that literal, with \<^verbatim>\<open>fileId\<close>, \<^verbatim>\<open>chunk\<close> and \<^verbatim>\<open>mime\<close>
  \<^verbatim>\<open>undefined\<close>.
\<close>

definition fileStart ::
  "nat \<Rightarrow> string option \<Rightarrow> string \<Rightarrow> nat \<Rightarrow> string option \<Rightarrow> debugHost \<Rightarrow> debugHost outcome" where
  "fileStart now fileId n s mime st =
     Returned
       (st\<lparr>incomingBuffer := putSlot (incomingBuffer st) (keyOf fileId)
              \<lparr>buf_name = n, buf_size = s, buf_type = mime, received = 0,
               buf_chunks = [], lastLog = 0, startTime = Some now\<rparr>\<rparr>)
       [AddLog (LogFileStart n)]"

definition hostB_onData ::
  "(nat \<Rightarrow> nat \<Rightarrow> nat) \<Rightarrow> nat \<Rightarrow> message \<Rightarrow> debugHost \<Rightarrow> debugHost outcome" where
  "hostB_onData floorPct now data st =
     (case data of
        FileStart fileId n s mime \<Rightarrow> fileStart now (Some fileId) n s (Some mime) st
      | StreamChunk fileId chunk \<Rightarrow> handleStreamChunk floorPct (Some fileId) (Some chunk) st
      | FileEnd fileId \<Rightarrow>
          after [AddLog (LogFileEnd fileId)] (finishFile now (Some fileId) st)
      | Announce ty i n s \<Rightarrow>
          if ty = ''file-start'' then fileStart now None n s None st
          else if ty = ''stream-chunk'' then handleStreamChunk floorPct None None st
          else if ty = ''file-end'' then
            after [AddLog (LogFileEnd (keyOf None))] (finishFile now None st)
          else Returned st []
      | _ \<Rightarrow> Returned st [])"

fun hostB_run ::
  "(nat \<Rightarrow> nat \<Rightarrow> nat) \<Rightarrow> (nat \<times> message) list \<Rightarrow> debugHost \<Rightarrow> debugHost outcome" where
  "hostB_run floorPct [] st = Returned st []"
| "hostB_run floorPct ((now, m) # ms) st =
     andThen (hostB_onData floorPct now m st) (hostB_run floorPct ms)"

text \<open>The \<^verbatim>\<open>close\<close> listener: \<^verbatim>\<open>incomingBuffer.current = {}\<close> puts a new, empty object in
  place of the table.\<close>

definition hostB_onClose :: "debugHost \<Rightarrow> debugHost \<times> effect list" where
  "hostB_onClose st =
     (st\<lparr>debugConn := False, incomingBuffer := emptyTable\<rparr>, [AddLog LogConnectionClosed])"

section \<open>Reading effect traces\<close>

text \<open>The chunk payloads put on the channel by a trace, in the order they were sent.\<close>

fun chunkOf :: "effect \<Rightarrow> bytes option" where
  "chunkOf (Send (CHUNK i ch)) = Some ch"
| "chunkOf (Send (StreamChunk i ch)) = Some ch"
| "chunkOf _ = None"

definition sentChunks :: "effect list \<Rightarrow> bytes list" where
  "sentChunks effs = List.map_filter chunkOf effs"

fun messageOf :: "effect \<Rightarrow> message option" where
  "messageOf (Send m) = Some m"
| "messageOf _ = None"

text \<open>The messages put on the channel by a trace, in order.\<close>

definition sentMessages :: "effect list \<Rightarrow> message list" where
  "sentMessages effs = List.map_filter messageOf effs"

text \<open>The \<^verbatim>\<open>type\<close> field of a message.\<close>

fun typeOf :: "message \<Rightarrow> string" where
  "typeOf (Announce ty i n s) = ty"
| "typeOf (ACK i) = ''ACK''"
| "typeOf (CHUNK i ch) = ''CHUNK''"
| "typeOf (FileStart i n s mime) = ''file-start''"
| "typeOf (StreamChunk i ch) = ''stream-chunk''"
| "typeOf (FileEnd i) = ''file-end''"

text \<open>What a listener left behind, if it returned, and what it did in either case.\<close>

fun stateOf :: "'s outcome \<Rightarrow> 's option" where
  "stateOf (Returned st e) = Some st"
| "stateOf (Threw e) = None"

fun effectsOf :: "'s outcome \<Rightarrow> effect list" where
  "effectsOf (Returned st e) = e"
| "effectsOf (Threw e) = e"

text \<open>A field of the buffer that a read of the table gives, if it gives one.\<close>

fun slotMap :: "('b \<Rightarrow> 'c) \<Rightarrow> 'b slot \<Rightarrow> 'c option" where
  "slotMap g (Entry b) = Some (g b)"
| "slotMap g Alien = None"
| "slotMap g Absent = None"

text \<open>A succession of \<^verbatim>\<open>stream-chunk\<close> messages for one id, handled one after the
  other.\<close>

fun receiveChunks ::
  "(nat \<Rightarrow> nat \<Rightarrow> nat) \<Rightarrow> string \<Rightarrow> bytes list \<Rightarrow> debugHost \<Rightarrow> debugHost outcome" where
  "receiveChunks floorPct fileId [] st = Returned st []"
| "receiveChunks floorPct fileId (ch # chs) st =
     andThen (handleStreamChunk floorPct (Some fileId) (Some ch) st)
       (receiveChunks floorPct fileId chs)"

text \<open>A run of the loop body that finds the channel at or below the high-water mark and
  open.\<close>

definition permissive :: "env \<Rightarrow> bool" where
  "permissive e = (bufferedAmount e \<le> 10 * 1024 * 1024 \<and> isOpen e)"

text \<open>The chunk lengths of a file of \<open>n\<close> bytes cut every \<open>c\<close> bytes.\<close>

definition chunkLengths :: "nat \<Rightarrow> nat \<Rightarrow> nat list" where
  "chunkLengths c n = replicate (n div c) c @ (if n mod c = 0 then [] else [n mod c])"

text \<open>Concrete channels and a three-byte file, for the examples.\<close>

definition okEnv :: env where
  "okEnv = \<lparr>bufferedAmount = 0, isOpen = True\<rparr>"

definition fullEnv :: env where
  "fullEnv = \<lparr>bufferedAmount = 10 * 1024 * 1024 + 1, isOpen = True\<rparr>"


definition abc :: jsfile where
  "abc = \<lparr>fname = ''a.txt'', ftype = ''text/plain'', content = [1, 2, 3]\<rparr>"

definition empty_file :: jsfile where
  "empty_file = \<lparr>fname = ''empty.txt'', ftype = ''text/plain'', content = []\<rparr>"

text \<open>Peers that have just connected, and a stand-in for the double precision percentage
  in the examples.\<close>

definition host0 :: host where
  "host0 = \<lparr>incomingFilesRef = emptyTable, files = [], hostConn = True\<rparr>"

definition debugHost0 :: debugHost where
  "debugHost0 = \<lparr>incomingBuffer = emptyTable, receivedFiles = [], debugConn = True\<rparr>"

definition sender0 :: sender where
  "sender0 = \<lparr>fileToSendRef = None, conn = True\<rparr>"

definition exactPct :: "nat \<Rightarrow> nat \<Rightarrow> nat" where
  "exactPct r s = r * 100 div s"

text \<open>A start/chunk/end transfer announced with 10 bytes that is finished after 3, and the
  receiver just before the finish message.\<close>

definition partialTransfer :: "(nat \<times> message) list" where
  "partialTransfer =
     [(0, FileStart ''t1'' ''a.txt'' 10 ''text/plain''),
      (1, StreamChunk ''t1'' [1, 2, 3]),
      (2, FileEnd ''t1'')]"

definition threeOfTen :: debugHost where
  "threeOfTen =
     \<lparr>incomingBuffer =
        \<lparr>own = (\<lambda>_. None)(''t1'' \<mapsto>
            \<lparr>buf_name = ''a.txt'', buf_size = 10, buf_type = Some ''text/plain'', received = 3,
             buf_chunks = [[1, 2, 3]], lastLog = 0, startTime = Some 0\<rparr>),
         proto = None\<rparr>,
      receivedFiles = [], debugConn = True\<rparr>"

text \<open>A chunk and a finish message for an id that was never announced, and the receiver
  between the two.\<close>

definition unannounced :: "(nat \<times> message) list" where
  "unannounced = [(0, StreamChunk ''zz'' [1, 2]), (1, FileEnd ''zz'')]"

definition zzAdmitted :: debugHost where
  "zzAdmitted =
     \<lparr>incomingBuffer =
        \<lparr>own = (\<lambda>_. None)(''zz'' \<mapsto>
            \<lparr>buf_name = ''Unknown File'', buf_size = 0,
             buf_type = Some ''application/octet-stream'', received = 2,
             buf_chunks = [[1, 2]], lastLog = 0, startTime = None\<rparr>),
         proto = None\<rparr>,
      receivedFiles = [], debugConn = True\<rparr>"

text \<open>An ACK-gated transfer announced with 10 bytes of which 3 have arrived: the messages
  and the receiver after them.\<close>

definition halfArrivals :: "(nat \<times> message) list" where
  "halfArrivals = [(0, HEADER ''t1'' ''a.txt'' 10), (1, CHUNK ''t1'' [1, 2, 3])]"

definition halfReceived :: host where
  "halfReceived =
     \<lparr>incomingFilesRef =
        \<lparr>own = (\<lambda>_. None)(''t1'' \<mapsto>
            \<lparr>fm_name = ''a.txt'', fm_size = 10, fm_type = ''HEADER'', receivedBytes = 3,
             fm_chunks = [[1, 2, 3]], lastUpdate = 0\<rparr>),
         proto = None\<rparr>,
      files = [\<lparr>card_id = ''t1'', card_name = ''a.txt'', sizeDisplay = 10,
                card_progress = Fixed 0, card_status = Receiving, url = None\<rparr>],
      hostConn = True\<rparr>"




definition emptyAnnounced :: host where
  "emptyAnnounced =
     \<lparr>incomingFilesRef =
        \<lparr>own = (\<lambda>_. None)(''t0'' \<mapsto>
            \<lparr>fm_name = ''empty.txt'', fm_size = 0, fm_type = ''HEADER'', receivedBytes = 0,
             fm_chunks = [], lastUpdate = 0\<rparr>),
         proto = None\<rparr>,
      files = [\<lparr>card_id = ''t0'', card_name = ''empty.txt'', sizeDisplay = 0,
                card_progress = Fixed 0, card_status = Receiving, url = None\<rparr>],
      hostConn = True\<rparr>"

text \<open>The messages of the three-byte file cut every two bytes, as they arrive at each
  receiver; the ACK-gated receiver is given an object of type \<^verbatim>\<open>'HEADER'\<close> first.\<close>

definition abcArrivalsA :: "(nat \<times> message) list" where
  "abcArrivalsA =
     [(0, HEADER ''t1'' ''a.txt'' 3), (1, CHUNK ''t1'' [1, 2]), (2, CHUNK ''t1'' [3])]"

definition abcArrivalsB :: "(nat \<times> message) list" where
  "abcArrivalsB =
     [(0, FileStart ''t1'' ''a.txt'' 3 ''text/plain''),
      (1, StreamChunk ''t1'' [1, 2]), (2, StreamChunk ''t1'' [3]), (3, FileEnd ''t1'')]"

section \<open>Traces of the send loops\<close>

lemma sentChunks_simps [simp]:
  "sentChunks [] = []"
  "sentChunks (Send (CHUNK i ch) # effs) = ch # sentChunks effs"
  "sentChunks (Send (StreamChunk i ch) # effs) = ch # sentChunks effs"
  "sentChunks (SetTimeout d # effs) = sentChunks effs"
  "sentChunks (ResetTimer d # effs) = sentChunks effs"
  "sentChunks (AddLog l # effs) = sentChunks effs"
  "sentChunks (SetSendingState s # effs) = sentChunks effs"
  "sentChunks (SetUploadProgress p # effs) = sentChunks effs"
  "sentChunks (SetCurrentFileName n # effs) = sentChunks effs"
  "sentChunks (Send (FileEnd i) # effs) = sentChunks effs"
  "sentChunks (Send (FileStart i n k t) # effs) = sentChunks effs"
  "sentChunks (Send (Announce t i n k) # effs) = sentChunks effs"
  "sentChunks (Send (ACK i) # effs) = sentChunks effs"
  by (simp_all add: sentChunks_def)

lemma chunkLengths_step:
  assumes "0 < c" "c \<le> n"
  shows "chunkLengths c n = c # chunkLengths c (n - c)"
proof -
  have "n div c = Suc ((n - c) div c)" using assms by (simp add: le_div_geq)
  moreover have "n mod c = (n - c) mod c" using assms by (simp add: le_mod_geq)
  ultimately show ?thesis by (simp add: chunkLengths_def)
qed

lemma chunkLengths_last:
  assumes "0 < n" "n < c"
  shows "chunkLengths c n = [n]"
  using assms by (simp add: chunkLengths_def)

lemma chunkLengths_0 [simp]: "chunkLengths c 0 = []"
  by (simp add: chunkLengths_def)

lemma sendLoop_done_concat:
  "SetSendingState Done \<in> set (sendLoop c f i off es) \<Longrightarrow>
   concat (sentChunks (sendLoop c f i off es)) = drop off (content f)"
proof (induction es arbitrary: off)
  case Nil
  then show ?case by simp
next
  case (Cons e es)
  show ?case
  proof (cases "bufferedAmount e > 10 * 1024 * 1024")
    case True
    with Cons show ?thesis by simp
  next
    case gate: False
    show ?thesis
    proof (cases "off \<ge> fsize f")
      case True
      with gate show ?thesis by (simp add: fsize_def)
    next
      case False
      with gate Cons.prems have op: "isOpen e" by (auto split: if_splits)
      from gate False op Cons.prems
      have "SetSendingState Done \<in> set (sendLoop c f i (off + c) es)" by simp
      then have "concat (sentChunks (sendLoop c f i (off + c) es)) = drop (off + c) (content f)"
        by (rule Cons.IH)
      moreover have "take c (drop off (content f)) @ drop (off + c) (content f) = drop off (content f)"
        by (metis add.commute append_take_drop_id drop_drop)
      ultimately show ?thesis using gate False op by (simp add: slice_def)
    qed
  qed
qed

lemma sendLoop_done_lengths:
  "0 < c \<Longrightarrow> SetSendingState Done \<in> set (sendLoop c f i off es) \<Longrightarrow>
   map length (sentChunks (sendLoop c f i off es)) = chunkLengths c (fsize f - off)"
proof (induction es arbitrary: off)
  case Nil
  then show ?case by simp
next
  case (Cons e es)
  show ?case
  proof (cases "bufferedAmount e > 10 * 1024 * 1024")
    case True
    with Cons show ?thesis by simp
  next
    case gate: False
    show ?thesis
    proof (cases "off \<ge> fsize f")
      case True
      with gate show ?thesis by simp
    next
      case False
      with gate Cons.prems have op: "isOpen e" by (auto split: if_splits)
      from gate False op Cons.prems
      have "SetSendingState Done \<in> set (sendLoop c f i (off + c) es)" by simp
      with Cons.prems(1)
      have IH: "map length (sentChunks (sendLoop c f i (off + c) es)) = chunkLengths c (fsize f - (off + c))"
        by (rule Cons.IH)
      have len: "length (slice f off (off + c)) = min c (fsize f - off)"
        by (simp add: slice_def fsize_def min.commute)
      show ?thesis
      proof (cases "c \<le> fsize f - off")
        case True
        then have "chunkLengths c (fsize f - off) = c # chunkLengths c (fsize f - off - c)"
          using Cons.prems(1) by (rule chunkLengths_step[rotated])
        with IH len True gate False op show ?thesis by simp
      next
        case small: False
        with False have "chunkLengths c (fsize f - off) = [fsize f - off]"
          by (intro chunkLengths_last) auto
        moreover from small have "fsize f - (off + c) = 0" by simp
        ultimately show ?thesis using IH len small gate False op by simp
      qed
    qed
  qed
qed

lemma sendLoop_reaches_done:
  "0 < c \<Longrightarrow> \<forall>e\<in>set es. permissive e \<Longrightarrow> (fsize f - off) + c \<le> length es * c \<Longrightarrow>
   SetSendingState Done \<in> set (sendLoop c f i off es)"
proof (induction es arbitrary: off)
  case Nil
  then show ?case by simp
next
  case (Cons e es)
  from Cons.prems(2) have pe: "bufferedAmount e \<le> 10 * 1024 * 1024" "isOpen e"
    by (simp_all add: permissive_def)
  show ?case
  proof (cases "off \<ge> fsize f")
    case True
    with pe show ?thesis by simp
  next
    case False
    have "(fsize f - (off + c)) + c \<le> length es * c"
    proof (cases "c \<le> fsize f - off")
      case True
      with Cons.prems(3) show ?thesis by simp
    next
      case small: False
      from False Cons.prems(3) have "fsize f - off \<le> length es * c" "0 < fsize f - off" by simp_all
      then have "0 < length es * c" by linarith
      then have "c \<le> length es * c" by (cases es) simp_all
      with small show ?thesis by simp
    qed
    with Cons.prems(1,2) have "SetSendingState Done \<in> set (sendLoop c f i (off + c) es)"
      by (intro Cons.IH) simp_all
    with pe False show ?thesis by simp
  qed
qed

lemma sendNextChunk_end_concat:
  "Send (FileEnd j) \<in> set (sendNextChunk c f i off es) \<Longrightarrow>
   concat (sentChunks (sendNextChunk c f i off es)) = drop off (content f)"
proof (induction es arbitrary: off)
  case Nil
  then show ?case by simp
next
  case (Cons e es)
  show ?case
  proof (cases "off \<ge> fsize f")
    case True
    then show ?thesis by (simp add: fsize_def)
  next
    case False
    with Cons.prems have op: "isOpen e" by (auto split: if_splits)
    from False op Cons.prems
    have "Send (FileEnd j) \<in> set (sendNextChunk c f i (off + c) es)" by simp
    then have "concat (sentChunks (sendNextChunk c f i (off + c) es)) = drop (off + c) (content f)"
      by (rule Cons.IH)
    moreover have "take c (drop off (content f)) @ drop (off + c) (content f) = drop off (content f)"
      by (metis add.commute append_take_drop_id drop_drop)
    ultimately show ?thesis using False op by (simp add: slice_def)
  qed
qed

lemma sendNextChunk_end_lengths:
  "0 < c \<Longrightarrow> Send (FileEnd j) \<in> set (sendNextChunk c f i off es) \<Longrightarrow>
   map length (sentChunks (sendNextChunk c f i off es)) = chunkLengths c (fsize f - off)"
proof (induction es arbitrary: off)
  case Nil
  then show ?case by simp
next
  case (Cons e es)
  show ?case
  proof (cases "off \<ge> fsize f")
    case True
    then show ?thesis by simp
  next
    case False
    with Cons.prems have op: "isOpen e" by (auto split: if_splits)
    from False op Cons.prems
    have "Send (FileEnd j) \<in> set (sendNextChunk c f i (off + c) es)" by simp
    with Cons.prems(1)
    have IH: "map length (sentChunks (sendNextChunk c f i (off + c) es))
                = chunkLengths c (fsize f - (off + c))"
      by (rule Cons.IH)
    have len: "length (slice f off (off + c)) = min c (fsize f - off)"
      by (simp add: slice_def fsize_def min.commute)
    show ?thesis
    proof (cases "c \<le> fsize f - off")
      case True
      then have "chunkLengths c (fsize f - off) = c # chunkLengths c (fsize f - off - c)"
        using Cons.prems(1) by (rule chunkLengths_step[rotated])
      with IH len True False op show ?thesis by simp
    next
      case small: False
      with False have "chunkLengths c (fsize f - off) = [fsize f - off]"
        by (intro chunkLengths_last) auto
      moreover from small have "fsize f - (off + c) = 0" by simp
      ultimately show ?thesis using IH len small False op by simp
    qed
  qed
qed

lemma sendNextChunk_reaches_end:
  "0 < c \<Longrightarrow> \<forall>e\<in>set es. isOpen e \<Longrightarrow> (fsize f - off) + c \<le> length es * c \<Longrightarrow>
   Send (FileEnd i) \<in> set (sendNextChunk c f i off es)"
proof (induction es arbitrary: off)
  case Nil
  then show ?case by simp
next
  case (Cons e es)
  from Cons.prems(2) have pe: "isOpen e" by simp
  show ?case
  proof (cases "off \<ge> fsize f")
    case True
    then show ?thesis by simp
  next
    case False
    have "(fsize f - (off + c)) + c \<le> length es * c"
    proof (cases "c \<le> fsize f - off")
      case True
      with Cons.prems(3) show ?thesis by simp
    next
      case small: False
      from False Cons.prems(3) have "fsize f - off \<le> length es * c" "0 < fsize f - off"
        by simp_all
      then have "0 < length es * c" by linarith
      then have "c \<le> length es * c" by (cases es) simp_all
      with small show ?thesis by simp
    qed
    with Cons.prems(1,2) have "Send (FileEnd i) \<in> set (sendNextChunk c f i (off + c) es)"
      by (intro Cons.IH) simp_all
    with pe False show ?thesis by simp
  qed
qed

lemma enough_runs:
  assumes "0 < (c::nat)" "n div c + 2 \<le> k"
  shows "n + c \<le> k * c"
proof -
  have "n = n div c * c + n mod c" by simp
  moreover have "n mod c < c" using assms(1) by simp
  ultimately have "n < n div c * c + c" by linarith
  then have "n + c \<le> (n div c + 2) * c" by (simp add: algebra_simps)
  also have "\<dots> \<le> k * c" using assms(2) by (rule mult_le_mono1)
  finally show ?thesis .
qed

lemma sendLoop_blocked:
  "\<forall>e\<in>set bs. bufferedAmount e > 10 * 1024 * 1024 \<Longrightarrow>
   sendLoop c f i off (bs @ es) = replicate (length bs) (SetTimeout 50) @ sendLoop c f i off es"
  by (induction bs) simp_all

subsection \<open>Messages of a trace\<close>

lemma sentMessages_simps [simp]:
  "sentMessages [] = []"
  "sentMessages (Send m # effs) = m # sentMessages effs"
  "sentMessages (SetTimeout d # effs) = sentMessages effs"
  "sentMessages (ResetTimer d # effs) = sentMessages effs"
  "sentMessages (AddLog l # effs) = sentMessages effs"
  "sentMessages (SetSendingState s # effs) = sentMessages effs"
  "sentMessages (SetUploadProgress p # effs) = sentMessages effs"
  "sentMessages (SetCurrentFileName n # effs) = sentMessages effs"
  by (simp_all add: sentMessages_def)

lemma sendLoop_empty_file:
  "fsize f = 0 \<Longrightarrow> sentMessages (sendLoop c f i off es) = []"
  by (induction es) simp_all

lemma sendLoop_only_chunks:
  "m \<in> set (sentMessages (sendLoop c f i off es)) \<Longrightarrow> \<exists>ch. m = CHUNK i ch"
  by (induction es arbitrary: off) (auto split: if_splits)

subsection \<open>Stopping on a closed channel\<close>








section \<open>Tables and outcomes\<close>

lemma getSlot_putSlot [simp]: "getSlot fieldOf (putSlot t k b) k = Entry b"
  by (simp add: getSlot_def putSlot_def)

lemma putSlot_putSlot [simp]: "putSlot (putSlot t k a) k b = putSlot t k b"
  by (simp add: putSlot_def)

lemma getSlot_emptyTable:
  "getSlot fieldOf emptyTable k = (if k \<in> set objectPrototypeNames then Alien else Absent)"
  by (simp add: getSlot_def emptyTable_def objectPrototypeNames_def)

lemma getMeta_putSlot [simp]: "getMeta (putSlot t k b) k = Entry b"
  by (simp add: getMeta_def)

lemma getBuffer_putSlot [simp]: "getBuffer (putSlot t k b) k = Entry b"
  by (simp add: getBuffer_def)

lemma after_Nil [simp]: "after [] r = r"
  by (cases r) simp_all

lemma after_after [simp]: "after e (after e' r) = after (e @ e') r"
  by (cases r) simp_all

lemma andThen_after: "andThen (after e r) h = after e (andThen r h)"
  by (cases r) simp_all

lemma andThen_assoc: "andThen (andThen r g) h = andThen r (\<lambda>s. andThen (g s) h)"
  by (cases r) (simp_all add: andThen_after)

lemma stateOf_after [simp]: "stateOf (after e r) = stateOf r"
  by (cases r) simp_all

section \<open>Buffers of the receivers\<close>

lemma handleStreamChunk_known:
  assumes "getBuffer (incomingBuffer st) i = Entry b"
  shows "\<exists>st' effs b'. handleStreamChunk floorPct (Some i) (Some ch) st = Returned st' effs
           \<and> getBuffer (incomingBuffer st') i = Entry b'
           \<and> buf_chunks b' = buf_chunks b @ [ch]
           \<and> received b' = received b + length ch
           \<and> buf_size b' = buf_size b \<and> buf_type b' = buf_type b \<and> buf_name b' = buf_name b
           \<and> receivedFiles st' = receivedFiles st"
  using assms by (simp add: handleStreamChunk_def Let_def keyOf_def)

lemma handleStreamChunk_absent:
  assumes "getBuffer (incomingBuffer st) i = Absent"
  shows "\<exists>st'. handleStreamChunk floorPct (Some i) (Some ch) st
             = Returned st' [AddLog (LogUnknownChunk i), AddLog (LogFirstChunk (length ch))]
           \<and> getBuffer (incomingBuffer st') i
               = Entry \<lparr>buf_name = ''Unknown File'', buf_size = 0,
                        buf_type = Some ''application/octet-stream'', received = length ch,
                        buf_chunks = [ch], lastLog = 0, startTime = None\<rparr>
           \<and> receivedFiles st' = receivedFiles st"
  using assms by (simp add: handleStreamChunk_def Let_def keyOf_def)

text \<open>On a table that holds nothing yet, an id naming a member that the table object
  inherits makes each handler throw.\<close>

lemma inherited_name_throws:
  assumes "i \<in> set objectPrototypeNames"
  shows "handleIncomingData now (CHUNK i ch) host0 = Threw []
       \<and> handleStreamChunk floorPct (Some i) (Some ch) debugHost0 = Threw []
       \<and> finishFile now (Some i) debugHost0 = Threw []"
  using assms
  by (simp add: handleIncomingData_def handleStreamChunk_def finishFile_def host0_def
      debugHost0_def getMeta_def getBuffer_def getSlot_emptyTable keyOf_def Let_def)

lemma receiveChunks_known:
  "getBuffer (incomingBuffer st) i = Entry b \<Longrightarrow>
   \<exists>st' effs b'. receiveChunks floorPct i chs st = Returned st' effs
      \<and> getBuffer (incomingBuffer st') i = Entry b'
      \<and> buf_chunks b' = buf_chunks b @ chs
      \<and> received b' = received b + sum_list (map length chs)
      \<and> buf_size b' = buf_size b \<and> buf_type b' = buf_type b \<and> buf_name b' = buf_name b
      \<and> receivedFiles st' = receivedFiles st"
proof (induction chs arbitrary: st b)
  case Nil
  then show ?case by simp
next
  case (Cons ch chs)
  from handleStreamChunk_known[OF Cons.prems, of floorPct ch]
  obtain s1 e1 b1 where s1: "handleStreamChunk floorPct (Some i) (Some ch) st = Returned s1 e1"
    "getBuffer (incomingBuffer s1) i = Entry b1"
    "buf_chunks b1 = buf_chunks b @ [ch]" "received b1 = received b + length ch"
    "buf_size b1 = buf_size b" "buf_type b1 = buf_type b" "buf_name b1 = buf_name b"
    "receivedFiles s1 = receivedFiles st"
    by blast
  from Cons.IH[OF s1(2)]
  obtain s2 e2 b2 where s2: "receiveChunks floorPct i chs s1 = Returned s2 e2"
    "getBuffer (incomingBuffer s2) i = Entry b2"
    "buf_chunks b2 = buf_chunks b1 @ chs" "received b2 = received b1 + sum_list (map length chs)"
    "buf_size b2 = buf_size b1" "buf_type b2 = buf_type b1" "buf_name b2 = buf_name b1"
    "receivedFiles s2 = receivedFiles s1"
    by blast
  have "receiveChunks floorPct i (ch # chs) st = Returned s2 (e1 @ e2)"
    by (simp add: s1(1) s2(1))
  with s1 s2 show ?case by simp
qed


lemma handleIncomingData_chunk_below:
  assumes "getMeta (incomingFilesRef hst) i = Entry m" "receivedBytes m + length ch < fm_size m"
  shows "\<exists>st' m'. handleIncomingData now (CHUNK i ch) hst = Returned st' []
           \<and> getMeta (incomingFilesRef st') i = Entry m'
           \<and> receivedBytes m' = receivedBytes m + length ch \<and> fm_size m' = fm_size m
           \<and> fm_type m' = fm_type m \<and> fm_chunks m' = fm_chunks m @ [ch]
           \<and> map card_id (files st') = map card_id (files hst)
           \<and> map card_status (files st') = map card_status (files hst)
           \<and> map url (files st') = map url (files hst)"
proof -
  have p: "map card_id (map (\<lambda>f. if card_id f = i then f\<lparr>card_progress := p\<rparr> else f) cs)
             = map card_id cs
         \<and> map card_status (map (\<lambda>f. if card_id f = i then f\<lparr>card_progress := p\<rparr> else f) cs)
             = map card_status cs
         \<and> map url (map (\<lambda>f. if card_id f = i then f\<lparr>card_progress := p\<rparr> else f) cs)
             = map url cs" for p cs
    by (induction cs) simp_all
  from assms show ?thesis
    by (simp add: handleIncomingData_def Let_def p)
qed

lemma completed_cards:
  "c \<in> set (map (\<lambda>f. if card_id f = i
                        then f\<lparr>card_status := Completed, card_progress := p, url := u\<rparr>
                        else f) cs) \<Longrightarrow>
   card_id c = i \<Longrightarrow> card_status c = Completed \<and> url c = u"
proof (induction cs)
  case Nil
  then show ?case by simp
next
  case (Cons x cs)
  show ?case
  proof (cases "card_id x = i")
    case True
    with Cons show ?thesis by fastforce
  next
    case False
    with Cons show ?thesis by fastforce
  qed
qed

lemma finalizeFile_files:
  "getMeta (incomingFilesRef st) i = Entry m \<Longrightarrow>
   files (finalizeFile i st)
     = map (\<lambda>f. if card_id f = i
                 then f\<lparr>card_status := Completed, card_progress := Fixed 100,
                        url := Some (Blob (fm_chunks m) (fm_type m))\<rparr>
                 else f) (files st)"
  by (simp add: finalizeFile_def)

lemma finalizeFile_meta:
  "getMeta (incomingFilesRef st) i = Entry m \<Longrightarrow>
   getMeta (incomingFilesRef (finalizeFile i st)) i = Entry (m\<lparr>fm_chunks := []\<rparr>)"
  by (simp add: finalizeFile_def)

lemma handleIncomingData_chunk_finalizes:
  assumes "getMeta (incomingFilesRef hst) i = Entry m" "fm_size m \<le> receivedBytes m + length ch"
  shows "\<exists>lu fs. handleIncomingData now (CHUNK i ch) hst
           = Returned (finalizeFile i (hst\<lparr>incomingFilesRef := putSlot (incomingFilesRef hst) i
                 (m\<lparr>fm_chunks := fm_chunks m @ [ch],
                    receivedBytes := receivedBytes m + length ch, lastUpdate := lu\<rparr>),
               files := fs\<rparr>)) []
         \<and> map card_id fs = map card_id (files hst)"
proof -
  have p: "map card_id (map (\<lambda>f. if card_id f = i then f\<lparr>card_progress := p\<rparr> else f) cs)
             = map card_id cs" for p cs
    by (induction cs) simp_all
  show ?thesis
  proof (cases "now - lastUpdate m > 500 \<or> receivedBytes m + length ch = fm_size m")
    case True
    with assms show ?thesis
      by (intro exI[of _ now]
            exI[of _ "map (\<lambda>f. if card_id f = i
                       then f\<lparr>card_progress :=
                                Ratio (receivedBytes m + length ch) (fm_size m)\<rparr>
                       else f) (files hst)"])
         (simp add: handleIncomingData_def Let_def p cong: if_cong)
  next
    case False
    with assms show ?thesis
      by (intro exI[of _ "lastUpdate m"] exI[of _ "files hst"])
         (simp add: handleIncomingData_def Let_def)
  qed
qed

lemma handleIncomingData_chunk_reached:
  assumes "getMeta (incomingFilesRef hst) i = Entry m" "fm_size m \<le> receivedBytes m + length ch"
  shows "\<exists>st' m'. handleIncomingData now (CHUNK i ch) hst = Returned st' []
           \<and> getMeta (incomingFilesRef st') i = Entry m'
           \<and> receivedBytes m' = receivedBytes m + length ch \<and> fm_size m' = fm_size m
           \<and> fm_chunks m' = []
           \<and> map card_id (files st') = map card_id (files hst)
           \<and> (\<forall>c\<in>set (files st'). card_id c = i \<longrightarrow>
                 card_status c = Completed
                 \<and> url c = Some (Blob (fm_chunks m @ [ch]) (fm_type m)))"
proof -
  from handleIncomingData_chunk_finalizes[OF assms, of now]
  obtain lu fs where eq: "handleIncomingData now (CHUNK i ch) hst
           = Returned (finalizeFile i (hst\<lparr>incomingFilesRef := putSlot (incomingFilesRef hst) i
                 (m\<lparr>fm_chunks := fm_chunks m @ [ch],
                    receivedBytes := receivedBytes m + length ch, lastUpdate := lu\<rparr>),
               files := fs\<rparr>)) []"
    and ids: "map card_id fs = map card_id (files hst)"
    by blast
  let ?m2 = "m\<lparr>fm_chunks := fm_chunks m @ [ch],
                receivedBytes := receivedBytes m + length ch, lastUpdate := lu\<rparr>"
  let ?st1 = "hst\<lparr>incomingFilesRef := putSlot (incomingFilesRef hst) i ?m2, files := fs\<rparr>"
  have look: "getMeta (incomingFilesRef ?st1) i = Entry ?m2" by simp
  have q: "map card_id (map (\<lambda>f. if card_id f = i
             then f\<lparr>card_status := Completed, card_progress := Fixed 100, url := u\<rparr> else f) cs)
             = map card_id cs" for u cs
    by (induction cs) simp_all
  have a: "getMeta (incomingFilesRef (finalizeFile i ?st1)) i = Entry (?m2\<lparr>fm_chunks := []\<rparr>)"
    by (rule finalizeFile_meta[OF look])
  have b: "map card_id (files (finalizeFile i ?st1)) = map card_id (files hst)"
    by (simp only: finalizeFile_files[OF look] q) (simp add: ids)
  have c: "\<forall>c\<in>set (files (finalizeFile i ?st1)). card_id c = i \<longrightarrow>
                 card_status c = Completed
                 \<and> url c = Some (Blob (fm_chunks m @ [ch]) (fm_type m))"
  proof (intro ballI impI)
    fix c
    assume c: "c \<in> set (files (finalizeFile i ?st1))" "card_id c = i"
    from c(1) have "c \<in> set (map (\<lambda>f. if card_id f = i
                 then f\<lparr>card_status := Completed, card_progress := Fixed 100,
                        url := Some (Blob (fm_chunks ?m2) (fm_type ?m2))\<rparr>
                 else f) (files ?st1))"
      by (simp only: finalizeFile_files[OF look])
    from completed_cards[OF this c(2)]
    show "card_status c = Completed \<and> url c = Some (Blob (fm_chunks m @ [ch]) (fm_type m))"
      by simp
  qed
  from a b c show ?thesis
    by (intro exI[of _ "finalizeFile i ?st1"] exI[of _ "?m2\<lparr>fm_chunks := []\<rparr>"])
       (simp add: eq)
qed

section \<open>Delivery of a whole transfer\<close>

lemma hostA_run_append:
  "hostA_run (xs @ ys) st = andThen (hostA_run xs st) (hostA_run ys)"
proof (induction xs arbitrary: st)
  case Nil
  then show ?case by simp
next
  case (Cons x xs)
  obtain t m where x: "x = (t, m)" by (cases x)
  have "hostA_run (xs @ ys) = (\<lambda>s. andThen (hostA_run xs s) (hostA_run ys))"
    by (rule ext) (rule Cons.IH)
  then show ?case by (simp add: x andThen_assoc)
qed

lemma hostB_run_append:
  "hostB_run floorPct (xs @ ys) st = andThen (hostB_run floorPct xs st) (hostB_run floorPct ys)"
proof (induction xs arbitrary: st)
  case Nil
  then show ?case by simp
next
  case (Cons x xs)
  obtain t m where x: "x = (t, m)" by (cases x)
  have "hostB_run floorPct (xs @ ys) = (\<lambda>s. andThen (hostB_run floorPct xs s) (hostB_run floorPct ys))"
    by (rule ext) (rule Cons.IH)
  then show ?case by (simp add: x andThen_assoc)
qed

lemma hostA_run_below:
  "getMeta (incomingFilesRef hst) i = Entry m \<Longrightarrow>
   receivedBytes m + sum_list (map (\<lambda>x. length (snd x)) tchs) < fm_size m \<Longrightarrow>
   \<exists>st' m'. hostA_run (map (\<lambda>(t, ch). (t, CHUNK i ch)) tchs) hst = Returned st' []
      \<and> getMeta (incomingFilesRef st') i = Entry m'
      \<and> fm_chunks m' = fm_chunks m @ map snd tchs
      \<and> receivedBytes m' = receivedBytes m + sum_list (map (\<lambda>x. length (snd x)) tchs)
      \<and> fm_size m' = fm_size m \<and> fm_type m' = fm_type m
      \<and> map card_id (files st') = map card_id (files hst)"
proof (induction tchs arbitrary: hst m)
  case Nil
  then show ?case by simp
next
  case (Cons x tchs)
  obtain t ch where x: "x = (t, ch)" by (cases x)
  from Cons.prems(2) have below: "receivedBytes m + length ch < fm_size m" by (simp add: x)
  from handleIncomingData_chunk_below[OF Cons.prems(1) below, of t]
  obtain s1 m1 where m1: "handleIncomingData t (CHUNK i ch) hst = Returned s1 []"
    "getMeta (incomingFilesRef s1) i = Entry m1"
    "receivedBytes m1 = receivedBytes m + length ch" "fm_size m1 = fm_size m"
    "fm_type m1 = fm_type m" "fm_chunks m1 = fm_chunks m @ [ch]"
    "map card_id (files s1) = map card_id (files hst)"
    by blast
  from Cons.prems(2) m1
  have "receivedBytes m1 + sum_list (map (\<lambda>x. length (snd x)) tchs) < fm_size m1"
    by (simp add: x)
  from Cons.IH[OF m1(2) this]
  obtain s2 m2 where m2: "hostA_run (map (\<lambda>(t, ch). (t, CHUNK i ch)) tchs) s1 = Returned s2 []"
    "getMeta (incomingFilesRef s2) i = Entry m2"
    "fm_chunks m2 = fm_chunks m1 @ map snd tchs"
    "receivedBytes m2 = receivedBytes m1 + sum_list (map (\<lambda>x. length (snd x)) tchs)"
    "fm_size m2 = fm_size m1" "fm_type m2 = fm_type m1"
    "map card_id (files s2) = map card_id (files s1)"
    by blast
  have "hostA_run (map (\<lambda>(t, ch). (t, CHUNK i ch)) (x # tchs)) hst = Returned s2 []"
    by (simp add: x m1(1) m2(1))
  with m1 m2 show ?case by (simp add: x)
qed


lemma sendLoop_chunks_nonempty:
  "0 < c \<Longrightarrow> ch \<in> set (sentChunks (sendLoop c f i off es)) \<Longrightarrow> ch \<noteq> []"
proof (induction es arbitrary: off)
  case Nil
  then show ?case by simp
next
  case (Cons e es)
  then show ?case
    by (auto simp: slice_def fsize_def split: if_splits)
qed

lemma butlast_sum_less:
  assumes "chs \<noteq> []" "\<forall>ch\<in>set chs. ch \<noteq> []"
  shows "sum_list (map length (butlast chs)) < sum_list (map length chs)"
proof -
  from assms(1) have "chs = butlast chs @ [last chs]" by simp
  then have "sum_list (map length chs) = sum_list (map length (butlast chs)) + length (last chs)"
    by (metis (no_types) map_append sum_list.append list.simps(8,9) sum_list.Cons sum_list.Nil
        add.right_neutral)
  moreover from assms have "0 < length (last chs)" by simp
  ultimately show ?thesis by simp
qed

lemma sum_length_concat: "sum_list (map length chs) = length (concat chs)"
  by (induction chs) simp_all

lemma blobTypeOf_HEADER: "blobTypeOf ''HEADER'' = ''header''"
  by (simp add: blobTypeOf_def asciiLower_def)

lemma ack_gated_delivery:
  assumes c: "0 < c"
    and fin: "SetSendingState Done \<in> set (sendLoop c f i 0 es)"
    and nonempty: "0 < fsize f"
    and stamps: "map snd tchs = sentChunks (sendLoop c f i 0 es)"
  shows "\<exists>st' card cards.
           hostA_run ((now, HEADER i n (fsize f)) # map (\<lambda>(t, ch). (t, CHUNK i ch)) tchs) hst
             = Returned st' [AddLog LogHeaderReceived, Send (ACK i)]
         \<and> files st' = card # cards
         \<and> card_id card = i \<and> card_status card = Completed
         \<and> url card = Some \<lparr>blobBytes = content f, blobType = ''header''\<rparr>"
proof -
  let ?chs = "sentChunks (sendLoop c f i 0 es)"
  let ?m0 = "\<lparr>fm_name = n, fm_size = fsize f, fm_type = ''HEADER'', receivedBytes = 0,
              fm_chunks = [], lastUpdate = now\<rparr>"
  let ?c0 = "\<lparr>card_id = i, card_name = n, sizeDisplay = fsize f, card_progress = Fixed 0,
              card_status = Receiving, url = None\<rparr>"
  let ?h1 = "hst\<lparr>incomingFilesRef := putSlot (incomingFilesRef hst) i ?m0,
                 files := ?c0 # files hst\<rparr>"
  have hdr: "handleIncomingData now (HEADER i n (fsize f)) hst
               = Returned ?h1 [AddLog LogHeaderReceived, Send (ACK i)]"
    by (simp add: handleIncomingData_def)
  have all: "concat ?chs = content f"
    using sendLoop_done_concat[OF fin] by simp
  with nonempty have ne: "?chs \<noteq> []" by (auto simp: fsize_def)
  have pos: "\<forall>ch\<in>set ?chs. ch \<noteq> []"
    using sendLoop_chunks_nonempty[OF c] by blast
  from ne stamps have tne: "tchs \<noteq> []" by auto
  then have split: "tchs = butlast tchs @ [last tchs]" by simp
  obtain tl chl where lastp: "last tchs = (tl, chl)" by (cases "last tchs")
  from stamps tne have bl: "map snd (butlast tchs) = butlast ?chs" by (simp add: map_butlast)
  from stamps tne lastp have ll: "chl = last ?chs" by (metis last_map snd_conv)
  have total: "sum_list (map length ?chs) = fsize f"
    by (simp add: sum_length_concat all fsize_def)
  have m0: "getMeta (incomingFilesRef ?h1) i = Entry ?m0" by simp
  have "sum_list (map (\<lambda>x. length (snd x)) (butlast tchs))
          = sum_list (map length (map snd (butlast tchs)))"
    by (simp add: comp_def)
  then have "sum_list (map (\<lambda>x. length (snd x)) (butlast tchs)) = sum_list (map length (butlast ?chs))"
    by (simp only: bl)
  with butlast_sum_less[OF ne pos] total
  have below: "receivedBytes ?m0 + sum_list (map (\<lambda>x. length (snd x)) (butlast tchs)) < fm_size ?m0"
    by simp
  from hostA_run_below[OF m0 below]
  obtain h2 m' where m': "hostA_run (map (\<lambda>(t, ch). (t, CHUNK i ch)) (butlast tchs)) ?h1
        = Returned h2 []"
    "getMeta (incomingFilesRef h2) i = Entry m'" "fm_chunks m' = map snd (butlast tchs)"
    "receivedBytes m' = sum_list (map (\<lambda>x. length (snd x)) (butlast tchs))"
    "fm_size m' = fsize f" "fm_type m' = ''HEADER''"
    "map card_id (files h2) = i # map card_id (files hst)"
    by auto
  have chunks: "fm_chunks m' @ [chl] = ?chs"
    using m'(3) bl ll ne by simp
  have "receivedBytes m' + length chl = sum_list (map length (fm_chunks m' @ [chl]))"
    using m'(3,4) by (simp add: comp_def)
  with chunks total m'(5) have reach: "fm_size m' \<le> receivedBytes m' + length chl" by simp
  from handleIncomingData_chunk_reached[OF m'(2) reach, of tl]
  obtain h3 where h3: "handleIncomingData tl (CHUNK i chl) h2 = Returned h3 []"
    "map card_id (files h3) = map card_id (files h2)"
    "\<forall>c\<in>set (files h3). card_id c = i \<longrightarrow>
        card_status c = Completed \<and> url c = Some (Blob (fm_chunks m' @ [chl]) (fm_type m'))"
    by blast
  have msgs: "map (\<lambda>(t, ch). (t, CHUNK i ch)) tchs
            = map (\<lambda>(t, ch). (t, CHUNK i ch)) (butlast tchs) @ [(tl, CHUNK i chl)]"
    using split lastp by (metis (no_types, lifting) map_append list.simps(8,9) case_prod_conv)
  have run: "hostA_run ((now, HEADER i n (fsize f)) # map (\<lambda>(t, ch). (t, CHUNK i ch)) tchs) hst
               = Returned h3 [AddLog LogHeaderReceived, Send (ACK i)]"
    by (simp only: msgs hostA_run.simps hdr andThen.simps hostA_run_append m'(1) h3(1))
       simp
  from h3(2) m'(7) obtain card cards where cs: "files h3 = card # cards" "card_id card = i"
    by (cases "files h3") auto
  then have "card \<in> set (files h3)" by simp
  with h3(3) cs(2)
  have "card_status card = Completed \<and> url card = Some (Blob (fm_chunks m' @ [chl]) (fm_type m'))"
    by blast
  with chunks all m'(6) have "card_status card = Completed
      \<and> url card = Some \<lparr>blobBytes = content f, blobType = ''header''\<rparr>"
    by (simp add: Blob_def blobTypeOf_HEADER)
  with cs run show ?thesis by blast
qed

lemma sendNextChunk_complete_messages:
  "Send (FileEnd j) \<in> set (sendNextChunk c f i off es) \<Longrightarrow>
   sentMessages (sendNextChunk c f i off es)
     = map (StreamChunk i) (sentChunks (sendNextChunk c f i off es)) @ [FileEnd i]"
proof (induction es arbitrary: off)
  case Nil
  then show ?case by simp
next
  case (Cons e es)
  show ?case
  proof (cases "off \<ge> fsize f")
    case True
    then show ?thesis by simp
  next
    case False
    with Cons.prems have op: "isOpen e" by (auto split: if_splits)
    from False op Cons.prems
    have "Send (FileEnd j) \<in> set (sendNextChunk c f i (off + c) es)" by simp
    from Cons.IH[OF this] False op show ?thesis by simp
  qed
qed

lemma hostB_run_chunks:
  "hostB_run floorPct (map (\<lambda>(t, ch). (t, StreamChunk i ch)) tchs) st
     = receiveChunks floorPct i (map snd tchs) st"
proof (induction tchs arbitrary: st)
  case Nil
  then show ?case by simp
next
  case (Cons x tchs)
  obtain t ch where x: "x = (t, ch)" by (cases x)
  have "hostB_run floorPct (map (\<lambda>(t, ch). (t, StreamChunk i ch)) tchs)
          = receiveChunks floorPct i (map snd tchs)"
    by (rule ext) (rule Cons.IH)
  then show ?case by (simp add: x hostB_onData_def)
qed

lemma stream_delivery:
  assumes c: "0 < c"
    and fin: "Send (FileEnd i) \<in> set (sendNextChunk c f i 0 es)"
    and nonempty: "0 < fsize f"
    and stamps: "map snd tchs = sentChunks (sendNextChunk c f i 0 es)"
  shows "\<exists>st' effs entry.
           hostB_run floorPct
              ((t0, FileStart i n (fsize f) ty)
               # map (\<lambda>(t, ch). (t, StreamChunk i ch)) tchs @ [(t1, FileEnd i)]) st
             = Returned st' effs
         \<and> receivedFiles st' = entry # receivedFiles st
         \<and> entry_id entry = Some i \<and> entry_name entry = n \<and> entry_size entry = fsize f
         \<and> blobBytes (entry_url entry) = content f
         \<and> blobType (entry_url entry) = blobTypeOf ty"
proof -
  let ?chs = "sentChunks (sendNextChunk c f i 0 es)"
  let ?b0 = "\<lparr>buf_name = n, buf_size = fsize f, buf_type = Some ty, received = 0,
              buf_chunks = [], lastLog = 0, startTime = Some t0\<rparr>"
  let ?s1 = "st\<lparr>incomingBuffer := putSlot (incomingBuffer st) i ?b0\<rparr>"
  have start: "hostB_onData floorPct t0 (FileStart i n (fsize f) ty) st
                 = Returned ?s1 [AddLog (LogFileStart n)]"
    by (simp add: hostB_onData_def fileStart_def keyOf_def)
  have all: "concat ?chs = content f"
    using sendNextChunk_end_concat[OF fin] by simp
  with nonempty have ne: "?chs \<noteq> []" by (auto simp: fsize_def)
  have b0: "getBuffer (incomingBuffer ?s1) i = Entry ?b0" by simp
  from receiveChunks_known[OF b0, of floorPct ?chs]
  obtain s2 e2 b where b: "receiveChunks floorPct i ?chs ?s1 = Returned s2 e2"
    "getBuffer (incomingBuffer s2) i = Entry b" "buf_chunks b = ?chs"
    "received b = sum_list (map length ?chs)" "buf_type b = Some ty" "buf_name b = n"
    "receivedFiles s2 = receivedFiles st"
    by auto
  let ?entry = "\<lparr>entry_id = Some i, entry_name = n, entry_size = sum_list (map length ?chs),
                 entry_url = Blob ?chs ty, timestamp = t1\<rparr>"
  let ?s3 = "s2\<lparr>receivedFiles := ?entry # receivedFiles s2,
                incomingBuffer := deleteSlot (incomingBuffer s2) i\<rparr>"
  from b ne have fini: "finishFile t1 (Some i) s2
      = Returned ?s3 [AddLog (LogFinalizing (length ?chs) (sum_list (map length ?chs))),
                      AddLog LogSuccess]"
    by (simp add: finishFile_def keyOf_def)
  have endm: "hostB_onData floorPct t1 (FileEnd i) s2
      = Returned ?s3 [AddLog (LogFileEnd i),
                      AddLog (LogFinalizing (length ?chs) (sum_list (map length ?chs))),
                      AddLog LogSuccess]"
    by (simp add: hostB_onData_def fini)
  have run: "hostB_run floorPct
              ((t0, FileStart i n (fsize f) ty)
               # map (\<lambda>(t, ch). (t, StreamChunk i ch)) tchs @ [(t1, FileEnd i)]) st
            = Returned ?s3 ([AddLog (LogFileStart n)] @ e2 @ [AddLog (LogFileEnd i),
                 AddLog (LogFinalizing (length ?chs) (sum_list (map length ?chs))),
                 AddLog LogSuccess])"
    by (simp add: start hostB_run_append hostB_run_chunks stamps b(1) endm)
  show ?thesis
    by (intro exI[of _ ?s3] exI[of _ "[AddLog (LogFileStart n)] @ e2 @ [AddLog (LogFileEnd i),
                 AddLog (LogFinalizing (length ?chs) (sum_list (map length ?chs))),
                 AddLog LogSuccess]"] exI[of _ ?entry])
       (rule conjI, rule run, simp add: b(7) Blob_def all sum_length_concat fsize_def)
qed

lemma sendLoop_messages:
  "sentMessages (sendLoop c f i off es) = map (CHUNK i) (sentChunks (sendLoop c f i off es))"
  by (induction es arbitrary: off) simp_all

lemma stamped_payloads:
  assumes "map snd tms = map g chs"
  shows "\<exists>tchs. tms = map (\<lambda>(t, ch). (t, g ch)) tchs \<and> map snd tchs = chs"
proof (intro exI conjI)
  from assms have len: "length tms = length chs" by (metis length_map)
  have "map (\<lambda>(t, ch). (t, g ch)) (zip (map fst tms) chs) = zip (map fst tms) (map g chs)"
    by (simp add: zip_map2 split_beta)
  also have "\<dots> = zip (map fst tms) (map snd tms)" by (simp only: assms)
  also have "\<dots> = tms" by (rule zip_map_fst_snd)
  finally show "tms = map (\<lambda>(t, ch). (t, g ch)) (zip (map fst tms) chs)" by simp
  from len show "map snd (zip (map fst tms) chs) = chs" by simp
qed

lemma stamped_announced:
  assumes "map snd tms = a # map g chs"
  shows "\<exists>t0 tchs. tms = (t0, a) # map (\<lambda>(t, ch). (t, g ch)) tchs \<and> map snd tchs = chs"
proof -
  from assms obtain x0 rest where tms: "tms = x0 # rest" by (cases tms) auto
  with assms have x0: "snd x0 = a" and rest: "map snd rest = map g chs" by simp_all
  from stamped_payloads[OF rest]
  obtain tchs where tchs: "rest = map (\<lambda>(t, ch). (t, g ch)) tchs" "map snd tchs = chs"
    by blast
  from x0 have "x0 = (fst x0, a)" by (metis prod.collapse)
  with tms tchs show ?thesis by blast
qed

lemma stamped_transfer:
  assumes "map snd tms = a # map g chs @ [z]"
  shows "\<exists>t0 tchs t1. tms = (t0, a) # map (\<lambda>(t, ch). (t, g ch)) tchs @ [(t1, z)]
           \<and> map snd tchs = chs"
proof -
  from assms obtain x0 rest where tms: "tms = x0 # rest" by (cases tms) auto
  with assms have x0: "snd x0 = a" and rest: "map snd rest = map g chs @ [z]" by simp_all
  from rest have ne: "rest \<noteq> []" by auto
  then have sp: "rest = butlast rest @ [last rest]" by simp
  from rest ne have "map snd (butlast rest) = map g chs"
    by (metis butlast_snoc map_butlast)
  from stamped_payloads[OF this]
  obtain tchs where tchs: "butlast rest = map (\<lambda>(t, ch). (t, g ch)) tchs" "map snd tchs = chs"
    by blast
  from rest ne have "snd (last rest) = z" by (metis last_map last_snoc)
  then have "last rest = (fst (last rest), z)" by (metis prod.collapse)
  with sp tchs(1) have "rest = map (\<lambda>(t, ch). (t, g ch)) tchs @ [(fst (last rest), z)]" by simp
  moreover from x0 have "x0 = (fst x0, a)" by (metis prod.collapse)
  ultimately have "tms = (fst x0, a) # map (\<lambda>(t, ch). (t, g ch)) tchs @ [(fst (last rest), z)]"
    using tms by simp
  with tchs(2) show ?thesis by blast
qed

lemma hostA_run_absent_chunks:
  "\<forall>x\<in>set tchs. getMeta (incomingFilesRef hst) (fst (snd x)) = Absent \<Longrightarrow>
   hostA_run (map (\<lambda>(t, j, ch). (t, CHUNK j ch)) tchs) hst = Returned hst []"
proof (induction tchs)
  case Nil
  then show ?case by simp
next
  case (Cons x tchs)
  obtain t j ch where x: "x = (t, j, ch)" by (cases x)
  from Cons.prems have "getMeta (incomingFilesRef hst) j = Absent" by (simp add: x)
  then have "handleIncomingData t (CHUNK j ch) hst = Returned hst []"
    by (simp add: handleIncomingData_def)
  moreover from Cons
  have "hostA_run (map (\<lambda>(t, j, ch). (t, CHUNK j ch)) tchs) hst = Returned hst []"
    by simp
  ultimately show ?case by (simp add: x)
qed

section \<open>The claims\<close>

text \<open>
  C1. Cutting a file into chunks as the send loops do, and concatenating the chunks in the
  order they were sent as \<^verbatim>\<open>new Blob(chunks)\<close> does, gives back the bytes of the file,
  for every file (the empty one included) and every chunk size \<open>c > 0\<close>, once the loop
  has been given enough runs on an open, unclogged channel to reach the end of the file.
  For a file that is not empty this is what the receivers do with the chunk messages of
  the loops, taken in order and whatever their arrival times. The ACK-gated receiver,
  given an object of type \<^verbatim>\<open>'HEADER'\<close> with the id and the size of the file and then
  the chunk messages, returns from each with the card of the transfer completed and
  pointing to a blob of exactly the file's bytes, whose type is \<^verbatim>\<open>header\<close>; the
  object that \<^verbatim>\<open>initiateSend\<close> sends has the file's type in that field, and is not
  what this part is about. The start/chunk/end receiver, given the messages of
  \<^verbatim>\<open>sendFile\<close>, returns from each and ends with a new entry whose blob holds exactly
  the file's bytes.
\<close>

theorem round_trip:
  assumes "0 < c" and "\<forall>e\<in>set es. permissive e" and "fsize f div c + 2 \<le> length es"
  shows "blobBytes (Blob (sentChunks (sendLoop c f i 0 es)) t) = content f
       \<and> blobBytes (Blob (sentChunks (sendNextChunk c f i 0 es)) t) = content f
       \<and> (0 < fsize f
            \<and> map snd tms = HEADER i n (fsize f) # sentMessages (sendLoop c f i 0 es) \<longrightarrow>
            (\<exists>st' card cards.
               hostA_run tms hst = Returned st' [AddLog LogHeaderReceived, Send (ACK i)]
               \<and> files st' = card # cards
               \<and> card_id card = i \<and> card_status card = Completed
               \<and> url card = Some \<lparr>blobBytes = content f, blobType = ''header''\<rparr>))
       \<and> (0 < fsize f
            \<and> map snd tms' = FileStart i (fname f) (fsize f) (ftype f)
                               # sentMessages (sendNextChunk c f i 0 es) \<longrightarrow>
            (\<exists>st' effs entry.
               hostB_run floorPct tms' st = Returned st' effs
               \<and> receivedFiles st' = entry # receivedFiles st
               \<and> entry_id entry = Some i \<and> entry_name entry = fname f
               \<and> entry_size entry = fsize f
               \<and> blobBytes (entry_url entry) = content f
               \<and> blobType (entry_url entry) = blobTypeOf (ftype f)))"
proof (intro conjI impI)
  have fuel: "(fsize f - 0) + c \<le> length es * c"
    using enough_runs[OF assms(1,3)] by simp
  show finA: "blobBytes (Blob (sentChunks (sendLoop c f i 0 es)) t) = content f"
  proof -
    have "SetSendingState Done \<in> set (sendLoop c f i 0 es)"
      using assms(1,2) fuel by (rule sendLoop_reaches_done)
    then have "concat (sentChunks (sendLoop c f i 0 es)) = drop 0 (content f)"
      by (rule sendLoop_done_concat)
    then show ?thesis by (simp add: Blob_def)
  qed
  have opens: "\<forall>e\<in>set es. isOpen e" using assms(2) by (simp add: permissive_def)
  show "blobBytes (Blob (sentChunks (sendNextChunk c f i 0 es)) t) = content f"
  proof -
    from assms(1) opens have "Send (FileEnd i) \<in> set (sendNextChunk c f i 0 es)"
      using fuel by (rule sendNextChunk_reaches_end)
    then have "concat (sentChunks (sendNextChunk c f i 0 es)) = drop 0 (content f)"
      by (rule sendNextChunk_end_concat)
    then show ?thesis by (simp add: Blob_def)
  qed
  {
    assume a: "0 < fsize f
        \<and> map snd tms = HEADER i n (fsize f) # sentMessages (sendLoop c f i 0 es)"
    have fin: "SetSendingState Done \<in> set (sendLoop c f i 0 es)"
      using assms(1,2) fuel by (rule sendLoop_reaches_done)
    from a have "map snd tms
        = HEADER i n (fsize f) # map (CHUNK i) (sentChunks (sendLoop c f i 0 es))"
      by (simp only: sendLoop_messages)
    from stamped_announced[OF this]
    obtain t0 tchs where tchs:
      "tms = (t0, HEADER i n (fsize f)) # map (\<lambda>(t, ch). (t, CHUNK i ch)) tchs"
      "map snd tchs = sentChunks (sendLoop c f i 0 es)"
      by blast
    from a have pos: "0 < fsize f" by simp
    from ack_gated_delivery[OF assms(1) fin pos tchs(2), of t0 n hst]
    show "\<exists>st' card cards.
               hostA_run tms hst = Returned st' [AddLog LogHeaderReceived, Send (ACK i)]
               \<and> files st' = card # cards
               \<and> card_id card = i \<and> card_status card = Completed
               \<and> url card = Some \<lparr>blobBytes = content f, blobType = ''header''\<rparr>"
      by (simp only: tchs(1))
  }
  {
    assume a: "0 < fsize f
            \<and> map snd tms' = FileStart i (fname f) (fsize f) (ftype f)
                               # sentMessages (sendNextChunk c f i 0 es)"
    from assms(1) opens have fin: "Send (FileEnd i) \<in> set (sendNextChunk c f i 0 es)"
      using fuel by (rule sendNextChunk_reaches_end)
    from a have "map snd tms' = FileStart i (fname f) (fsize f) (ftype f)
         # map (StreamChunk i) (sentChunks (sendNextChunk c f i 0 es)) @ [FileEnd i]"
      by (simp only: sendNextChunk_complete_messages[OF fin])
    from stamped_transfer[OF this]
    obtain t0 tchs t1 where tchs:
      "tms' = (t0, FileStart i (fname f) (fsize f) (ftype f))
              # map (\<lambda>(t, ch). (t, StreamChunk i ch)) tchs @ [(t1, FileEnd i)]"
      "map snd tchs = sentChunks (sendNextChunk c f i 0 es)"
      by blast
    from a have pos: "0 < fsize f" by simp
    from stream_delivery[OF assms(1) fin pos tchs(2), of floorPct t0 "fname f" "ftype f" t1 st]
    show "\<exists>st' effs entry.
               hostB_run floorPct tms' st = Returned st' effs
               \<and> receivedFiles st' = entry # receivedFiles st
               \<and> entry_id entry = Some i \<and> entry_name entry = fname f
               \<and> entry_size entry = fsize f
               \<and> blobBytes (entry_url entry) = content f
               \<and> blobType (entry_url entry) = blobTypeOf (ftype f)"
      by (simp only: tchs(1))
  }
qed

text \<open>
  C1 at the three-byte file cut every two bytes, through both senders and both
  receivers.
\<close>

theorem round_trip_witness:
  "sentChunks (sendLoop 2 abc ''t1'' 0 [okEnv, okEnv, okEnv]) = [[1, 2], [3]]
   \<and> blobBytes (Blob (sentChunks (sendLoop 2 abc ''t1'' 0 [okEnv, okEnv, okEnv])) ''text/plain'')
       = [1, 2, 3]
   \<and> blobBytes (Blob (sentChunks (sendNextChunk 2 abc ''t1'' 0 [okEnv, okEnv, okEnv])) ''text/plain'')
       = [1, 2, 3]
   \<and> map_option (url \<circ> hd \<circ> files) (stateOf (hostA_run abcArrivalsA host0))
       = Some (Some \<lparr>blobBytes = [1, 2, 3], blobType = ''header''\<rparr>)
   \<and> map_option (entry_url \<circ> hd \<circ> receivedFiles)
        (stateOf (hostB_run exactPct abcArrivalsB debugHost0))
       = Some \<lparr>blobBytes = [1, 2, 3], blobType = ''text/plain''\<rparr>"
proof -
  have h1: "(0::nat) < 2" by simp
  have h2: "\<forall>e\<in>set [okEnv, okEnv, okEnv]. permissive e"
    by (simp add: okEnv_def permissive_def)
  have h3: "fsize abc div 2 + 2 \<le> length [okEnv, okEnv, okEnv]"
    by (simp add: fsize_def abc_def)
  have n: "fname abc = ''a.txt''" "ftype abc = ''text/plain''" "fsize abc = 3"
    "content abc = [1, 2, 3]"
    by (simp_all add: abc_def fsize_def)
  have ty: "blobTypeOf ''text/plain'' = ''text/plain''"
    by (simp add: blobTypeOf_def asciiLower_def)
  have chs: "sentChunks (sendLoop 2 abc ''t1'' 0 [okEnv, okEnv, okEnv]) = [[1, 2], [3]]"
    by (simp add: okEnv_def abc_def fsize_def slice_def)
  have h4: "0 < fsize abc \<and> map snd abcArrivalsA
      = HEADER ''t1'' ''a.txt'' (fsize abc)
        # sentMessages (sendLoop 2 abc ''t1'' 0 [okEnv, okEnv, okEnv])"
    by (simp add: abcArrivalsA_def okEnv_def abc_def fsize_def slice_def)
  have h5: "0 < fsize abc \<and> map snd abcArrivalsB
      = FileStart ''t1'' (fname abc) (fsize abc) (ftype abc)
        # sentMessages (sendNextChunk 2 abc ''t1'' 0 [okEnv, okEnv, okEnv])"
    by (simp add: abcArrivalsB_def okEnv_def abc_def fsize_def slice_def)
  note rt = round_trip[OF h1 h2 h3, where i="''t1''" and t="''text/plain''" and n="''a.txt''"
      and tms=abcArrivalsA and tms'=abcArrivalsB and hst=host0 and st=debugHost0
      and floorPct=exactPct]
  from rt have a: "blobBytes (Blob (sentChunks (sendLoop 2 abc ''t1'' 0 [okEnv, okEnv, okEnv])) ''text/plain'')
       = [1, 2, 3]
     \<and> blobBytes (Blob (sentChunks (sendNextChunk 2 abc ''t1'' 0 [okEnv, okEnv, okEnv])) ''text/plain'')
       = [1, 2, 3]"
    by (simp only: n)
  from rt h4 obtain st' card cards where
    "hostA_run abcArrivalsA host0 = Returned st' [AddLog LogHeaderReceived, Send (ACK ''t1'')]"
    "files st' = card # cards"
    "url card = Some \<lparr>blobBytes = content abc, blobType = ''header''\<rparr>"
    by blast
  then have b: "map_option (url \<circ> hd \<circ> files) (stateOf (hostA_run abcArrivalsA host0))
       = Some (Some \<lparr>blobBytes = [1, 2, 3], blobType = ''header''\<rparr>)"
    by (simp add: n)
  from rt h5 obtain st'' effs entry where
    "hostB_run exactPct abcArrivalsB debugHost0 = Returned st'' effs"
    "receivedFiles st'' = entry # receivedFiles debugHost0"
    "blobBytes (entry_url entry) = content abc"
    "blobType (entry_url entry) = blobTypeOf (ftype abc)"
    by blast
  then have c: "map_option (entry_url \<circ> hd \<circ> receivedFiles)
        (stateOf (hostB_run exactPct abcArrivalsB debugHost0))
       = Some \<lparr>blobBytes = [1, 2, 3], blobType = ''text/plain''\<rparr>"
    by (simp add: n ty)
  from chs a b c show ?thesis by blast
qed

text \<open>
  C2, as stated, fails on the start/chunk/end receiver: a transfer announced with 10 bytes
  that has received 3 when the finish message arrives is finalized into a 3-byte artifact
  and logged as a success.
\<close>

theorem finish_before_complete_counterexample:
  "hostB_run exactPct (butlast partialTransfer) debugHost0
     = Returned threeOfTen [AddLog (LogFileStart ''a.txt''), AddLog (LogFirstChunk 3)]
   \<and> slotMap received (getBuffer (incomingBuffer threeOfTen) ''t1'') = Some 3
   \<and> slotMap buf_size (getBuffer (incomingBuffer threeOfTen) ''t1'') = Some 10
   \<and> map_option receivedFiles (stateOf (hostB_run exactPct [last partialTransfer] threeOfTen))
       = Some [\<lparr>entry_id = Some ''t1'', entry_name = ''a.txt'', entry_size = 3,
                 entry_url = \<lparr>blobBytes = [1, 2, 3], blobType = ''text/plain''\<rparr>,
                 timestamp = 2\<rparr>]
   \<and> effectsOf (hostB_run exactPct [last partialTransfer] threeOfTen)
       = [AddLog (LogFileEnd ''t1''), AddLog (LogFinalizing 1 3), AddLog LogSuccess]"
  by (simp add: partialTransfer_def debugHost0_def threeOfTen_def hostB_onData_def
      fileStart_def handleStreamChunk_def finishFile_def exactPct_def Blob_def blobTypeOf_def
      asciiLower_def keyOf_def getBuffer_def getSlot_def putSlot_def emptyTable_def Let_def
      numeral_2_eq_2[symmetric])

text \<open>
  C2, amended. In the start/chunk/end receiver a finish message for an id at which the
  table of buffers gives nothing, or gives a buffer that holds no chunk, fails: one log
  line, state unchanged, no artifact. For an id at which the table gives a buffer with at
  least one chunk, it makes an artifact of the bytes received so far and deletes the
  entry of the id, whatever size was announced; unless the id is \<^verbatim>\<open>__proto__\<close>, the
  table gives no buffer for it afterwards. What a finish message does at an id for which
  the table gives something that is not a buffer is not part of this statement. The
  ACK-gated receiver has no finish message (it ignores one), and a chunk that leaves
  \<open>receivedBytes\<close> below the announced size completes no card.
\<close>

theorem finish_outcome:
  "(getBuffer (incomingBuffer st) i = Absent
      \<or> (\<exists>b. getBuffer (incomingBuffer st) i = Entry b \<and> buf_chunks b = []) \<longrightarrow>
      finishFile now (Some i) st = Returned st [AddLog (LogBufferEmpty i)])
   \<and> (getBuffer (incomingBuffer st) i = Entry b \<and> buf_chunks b \<noteq> [] \<longrightarrow>
        finishFile now (Some i) st
          = Returned
              (st\<lparr>receivedFiles :=
                    \<lparr>entry_id = Some i, entry_name = buf_name b, entry_size = received b,
                     entry_url = Blob (buf_chunks b) (case buf_type b of None \<Rightarrow> [] | Some t \<Rightarrow> t),
                     timestamp = now\<rparr>
                    # receivedFiles st,
                  incomingBuffer := deleteSlot (incomingBuffer st) i\<rparr>)
              [AddLog (LogFinalizing (length (buf_chunks b)) (received b)), AddLog LogSuccess]
      \<and> (i \<noteq> ''__proto__'' \<longrightarrow>
           slotMap buf_chunks (getBuffer (deleteSlot (incomingBuffer st) i) i) = None))
   \<and> handleIncomingData now (FileEnd i) hst = Returned hst []
   \<and> (getMeta (incomingFilesRef hst) i = Entry m \<and> receivedBytes m + length ch < fm_size m \<longrightarrow>
        (\<exists>st'. handleIncomingData now (CHUNK i ch) hst = Returned st' []
           \<and> map card_status (files st') = map card_status (files hst)
           \<and> map url (files st') = map url (files hst)))"
proof (intro conjI impI)
  assume "getBuffer (incomingBuffer st) i = Absent
      \<or> (\<exists>b. getBuffer (incomingBuffer st) i = Entry b \<and> buf_chunks b = [])"
  then show "finishFile now (Some i) st = Returned st [AddLog (LogBufferEmpty i)]"
    by (auto simp: finishFile_def keyOf_def)
next
  assume a: "getBuffer (incomingBuffer st) i = Entry b \<and> buf_chunks b \<noteq> []"
  then show "finishFile now (Some i) st
          = Returned
              (st\<lparr>receivedFiles :=
                    \<lparr>entry_id = Some i, entry_name = buf_name b, entry_size = received b,
                     entry_url = Blob (buf_chunks b) (case buf_type b of None \<Rightarrow> [] | Some t \<Rightarrow> t),
                     timestamp = now\<rparr>
                    # receivedFiles st,
                  incomingBuffer := deleteSlot (incomingBuffer st) i\<rparr>)
              [AddLog (LogFinalizing (length (buf_chunks b)) (received b)), AddLog LogSuccess]"
    by (simp add: finishFile_def keyOf_def)
next
  assume "i \<noteq> ''__proto__''"
  then show "slotMap buf_chunks (getBuffer (deleteSlot (incomingBuffer st) i) i) = None"
    by (simp add: getBuffer_def getSlot_def deleteSlot_def split: option.split)
next
  show "handleIncomingData now (FileEnd i) hst = Returned hst []"
    by (simp add: handleIncomingData_def)
next
  assume a: "getMeta (incomingFilesRef hst) i = Entry m \<and> receivedBytes m + length ch < fm_size m"
  then have m: "getMeta (incomingFilesRef hst) i = Entry m"
    and below: "receivedBytes m + length ch < fm_size m"
    by simp_all
  from handleIncomingData_chunk_below[OF m below, of now]
  show "\<exists>st'. handleIncomingData now (CHUNK i ch) hst = Returned st' []
           \<and> map card_status (files st') = map card_status (files hst)
           \<and> map url (files st') = map url (files hst)"
    by blast
qed

text \<open>
  The amended C2 at the 10-byte transfer finished after 3 bytes, at a finish message for
  an id that was never announced, and at a fourth byte arriving in the ACK-gated receiver.
\<close>

theorem finish_outcome_witness:
  "map_option receivedFiles (stateOf (finishFile 2 (Some ''t1'') threeOfTen))
     = Some [\<lparr>entry_id = Some ''t1'', entry_name = ''a.txt'', entry_size = 3,
               entry_url = \<lparr>blobBytes = [1, 2, 3], blobType = ''text/plain''\<rparr>, timestamp = 2\<rparr>]
   \<and> slotMap buf_chunks (getBuffer (deleteSlot (incomingBuffer threeOfTen) ''t1'') ''t1'') = None
   \<and> finishFile 2 (Some ''t1'') debugHost0 = Returned debugHost0 [AddLog (LogBufferEmpty ''t1'')]
   \<and> map_option (map card_status \<circ> files)
        (stateOf (handleIncomingData 2 (CHUNK ''t1'' [4]) halfReceived)) = Some [Receiving]"
proof -
  let ?b = "\<lparr>buf_name = ''a.txt'', buf_size = 10, buf_type = Some ''text/plain'', received = 3,
             buf_chunks = [[1, 2, 3]], lastLog = 0, startTime = Some 0\<rparr>"
  have b: "getBuffer (incomingBuffer threeOfTen) ''t1'' = Entry ?b \<and> buf_chunks ?b \<noteq> []"
    by (simp add: threeOfTen_def getBuffer_def getSlot_def)
  have r: "receivedFiles threeOfTen = []"
    by (simp add: threeOfTen_def)
  have p: "''t1'' \<noteq> ''__proto__''" by simp
  have n: "getBuffer (incomingBuffer debugHost0) ''t1'' = Absent
           \<or> (\<exists>b. getBuffer (incomingBuffer debugHost0) ''t1'' = Entry b \<and> buf_chunks b = [])"
    by (simp add: debugHost0_def getBuffer_def getSlot_emptyTable objectPrototypeNames_def)
  let ?m = "\<lparr>fm_name = ''a.txt'', fm_size = 10, fm_type = ''HEADER'', receivedBytes = 3,
             fm_chunks = [[1, 2, 3]], lastUpdate = 0\<rparr>"
  have h: "getMeta (incomingFilesRef halfReceived) ''t1'' = Entry ?m
           \<and> receivedBytes ?m + length [4::byte] < fm_size ?m"
    by (simp add: halfReceived_def getMeta_def getSlot_def)
  have f: "map card_status (files halfReceived) = [Receiving]"
    by (simp add: halfReceived_def)
  have ty: "blobTypeOf ''text/plain'' = ''text/plain''"
    by (simp add: blobTypeOf_def asciiLower_def)
  note fo = finish_outcome[where st=threeOfTen and i="''t1''" and b="?b" and now=2]
  from fo b r
  have 1: "map_option receivedFiles (stateOf (finishFile 2 (Some ''t1'') threeOfTen))
     = Some [\<lparr>entry_id = Some ''t1'', entry_name = ''a.txt'', entry_size = 3,
               entry_url = \<lparr>blobBytes = [1, 2, 3], blobType = ''text/plain''\<rparr>, timestamp = 2\<rparr>]"
    by (simp add: Blob_def ty)
  from fo b p
  have 2: "slotMap buf_chunks (getBuffer (deleteSlot (incomingBuffer threeOfTen) ''t1'') ''t1'')
             = None"
    by blast
  from finish_outcome[where st=debugHost0 and i="''t1''" and now=2] n
  have 3: "finishFile 2 (Some ''t1'') debugHost0
             = Returned debugHost0 [AddLog (LogBufferEmpty ''t1'')]"
    by blast
  from finish_outcome[where hst=halfReceived and i="''t1''" and m="?m" and ch="[4]" and now=2] h
  obtain st' where "handleIncomingData 2 (CHUNK ''t1'' [4]) halfReceived = Returned st' []"
    "map card_status (files st') = map card_status (files halfReceived)"
    by blast
  with f have 4: "map_option (map card_status \<circ> files)
        (stateOf (handleIncomingData 2 (CHUNK ''t1'' [4]) halfReceived)) = Some [Receiving]"
    by simp
  from 1 2 3 4 show ?thesis by blast
qed

text \<open>
  C3, as stated, fails: the ACK-gated receiver drops a chunk for an unannounced id without
  any signal, and the start/chunk/end receiver admits it into a buffer, which a following
  finish message turns into an artifact named ``Unknown File''.
\<close>

theorem unknown_chunk_counterexample:
  "handleIncomingData 0 (CHUNK ''zz'' [1, 2]) host0 = Returned host0 []
   \<and> handleStreamChunk exactPct (Some ''zz'') (Some [1, 2]) debugHost0
       = Returned zzAdmitted [AddLog (LogUnknownChunk ''zz''), AddLog (LogFirstChunk 2)]
   \<and> slotMap buf_chunks (getBuffer (incomingBuffer zzAdmitted) ''zz'') = Some [[1, 2]]
   \<and> map_option receivedFiles (stateOf (hostB_run exactPct unannounced debugHost0))
       = Some [\<lparr>entry_id = Some ''zz'', entry_name = ''Unknown File'', entry_size = 2,
                 entry_url = \<lparr>blobBytes = [1, 2], blobType = ''application/octet-stream''\<rparr>,
                 timestamp = 1\<rparr>]"
  by (simp add: unannounced_def debugHost0_def host0_def zzAdmitted_def hostB_onData_def
      handleStreamChunk_def handleIncomingData_def finishFile_def exactPct_def Blob_def
      blobTypeOf_def asciiLower_def keyOf_def getBuffer_def getMeta_def getSlot_def putSlot_def
      emptyTable_def objectPrototypeNames_def Let_def
      numeral_2_eq_2[symmetric])

text \<open>
  C3, amended, for a chunk with an id at which the receiver's table gives nothing: an id
  that was never announced and that names no member the table object inherits. The
  handler returns and no artifact is produced when the chunk is handled. The ACK-gated
  receiver drops it: same state, no effect at all, and so for any succession of such
  chunks. The start/chunk/end receiver logs a warning and admits the chunk into a
  fallback buffer of announced size 0 named ``Unknown File''; a finish message that
  follows turns that buffer into an artifact. What either handler does at an id for which
  the table gives something that is not a buffer is not part of this statement.
\<close>

theorem unknown_chunk:
  "(getMeta (incomingFilesRef hst) i = Absent \<longrightarrow>
      handleIncomingData now (CHUNK i ch) hst = Returned hst [])
   \<and> ((\<forall>x\<in>set tchs. getMeta (incomingFilesRef hst) (fst (snd x)) = Absent) \<longrightarrow>
        hostA_run (map (\<lambda>(t, j, ch). (t, CHUNK j ch)) tchs) hst = Returned hst [])
   \<and> (getBuffer (incomingBuffer st) i = Absent \<longrightarrow>
        (\<exists>st'. handleStreamChunk floorPct (Some i) (Some ch) st
                 = Returned st' [AddLog (LogUnknownChunk i), AddLog (LogFirstChunk (length ch))]
           \<and> getBuffer (incomingBuffer st') i
               = Entry \<lparr>buf_name = ''Unknown File'', buf_size = 0,
                        buf_type = Some ''application/octet-stream'', received = length ch,
                        buf_chunks = [ch], lastLog = 0, startTime = None\<rparr>
           \<and> receivedFiles st' = receivedFiles st)
      \<and> (\<exists>st''. hostB_run floorPct [(t0, StreamChunk i ch), (t1, FileEnd i)] st
                 = Returned st''
                     [AddLog (LogUnknownChunk i), AddLog (LogFirstChunk (length ch)),
                      AddLog (LogFileEnd i), AddLog (LogFinalizing 1 (length ch)),
                      AddLog LogSuccess]
           \<and> receivedFiles st''
               = \<lparr>entry_id = Some i, entry_name = ''Unknown File'', entry_size = length ch,
                  entry_url = Blob [ch] ''application/octet-stream'', timestamp = t1\<rparr>
                 # receivedFiles st))"
proof (intro conjI impI)
  assume "getMeta (incomingFilesRef hst) i = Absent"
  then show "handleIncomingData now (CHUNK i ch) hst = Returned hst []"
    by (simp add: handleIncomingData_def)
next
  assume "\<forall>x\<in>set tchs. getMeta (incomingFilesRef hst) (fst (snd x)) = Absent"
  then show "hostA_run (map (\<lambda>(t, j, ch). (t, CHUNK j ch)) tchs) hst = Returned hst []"
    by (rule hostA_run_absent_chunks)
next
  assume a: "getBuffer (incomingBuffer st) i = Absent"
  let ?b = "\<lparr>buf_name = ''Unknown File'', buf_size = 0,
             buf_type = Some ''application/octet-stream'', received = length ch,
             buf_chunks = [ch], lastLog = 0, startTime = None\<rparr>"
  from handleStreamChunk_absent[OF a, of floorPct ch]
  obtain s1 where s1: "handleStreamChunk floorPct (Some i) (Some ch) st
         = Returned s1 [AddLog (LogUnknownChunk i), AddLog (LogFirstChunk (length ch))]"
    "getBuffer (incomingBuffer s1) i = Entry ?b" "receivedFiles s1 = receivedFiles st"
    by blast
  then show "\<exists>st'. handleStreamChunk floorPct (Some i) (Some ch) st
                 = Returned st' [AddLog (LogUnknownChunk i), AddLog (LogFirstChunk (length ch))]
           \<and> getBuffer (incomingBuffer st') i = Entry ?b
           \<and> receivedFiles st' = receivedFiles st"
    by blast
  let ?s2 = "s1\<lparr>receivedFiles :=
                  \<lparr>entry_id = Some i, entry_name = ''Unknown File'', entry_size = length ch,
                   entry_url = Blob [ch] ''application/octet-stream'', timestamp = t1\<rparr>
                  # receivedFiles s1,
                incomingBuffer := deleteSlot (incomingBuffer s1) i\<rparr>"
  from s1(2) have fin: "finishFile t1 (Some i) s1
      = Returned ?s2 [AddLog (LogFinalizing 1 (length ch)), AddLog LogSuccess]"
    by (simp add: finishFile_def keyOf_def)
  have "hostB_run floorPct [(t0, StreamChunk i ch), (t1, FileEnd i)] st
          = Returned ?s2
              [AddLog (LogUnknownChunk i), AddLog (LogFirstChunk (length ch)),
               AddLog (LogFileEnd i), AddLog (LogFinalizing 1 (length ch)), AddLog LogSuccess]"
    by (simp add: hostB_onData_def s1(1) fin)
  moreover have "receivedFiles ?s2
      = \<lparr>entry_id = Some i, entry_name = ''Unknown File'', entry_size = length ch,
         entry_url = Blob [ch] ''application/octet-stream'', timestamp = t1\<rparr>
        # receivedFiles st"
    by (simp add: s1(3))
  ultimately show "\<exists>st''. hostB_run floorPct [(t0, StreamChunk i ch), (t1, FileEnd i)] st
                 = Returned st''
                     [AddLog (LogUnknownChunk i), AddLog (LogFirstChunk (length ch)),
                      AddLog (LogFileEnd i), AddLog (LogFinalizing 1 (length ch)),
                      AddLog LogSuccess]
           \<and> receivedFiles st''
               = \<lparr>entry_id = Some i, entry_name = ''Unknown File'', entry_size = length ch,
                  entry_url = Blob [ch] ''application/octet-stream'', timestamp = t1\<rparr>
                 # receivedFiles st"
    by blast
qed

text \<open>
  The amended C3 at chunks for the unannounced ids \<open>zz\<close> and \<open>yy\<close>.
\<close>

theorem unknown_chunk_witness:
  "handleIncomingData 0 (CHUNK ''zz'' [1, 2]) host0 = Returned host0 []
   \<and> hostA_run [(0, CHUNK ''zz'' [1, 2]), (1, CHUNK ''yy'' [3])] host0 = Returned host0 []
   \<and> effectsOf (handleStreamChunk exactPct (Some ''zz'') (Some [1, 2]) debugHost0)
       = [AddLog (LogUnknownChunk ''zz''), AddLog (LogFirstChunk 2)]
   \<and> map_option (map entry_name \<circ> receivedFiles)
        (stateOf (hostB_run exactPct unannounced debugHost0)) = Some [''Unknown File'']"
proof -
  have a: "getMeta (incomingFilesRef host0) ''zz'' = Absent"
    by (simp add: host0_def getMeta_def getSlot_emptyTable objectPrototypeNames_def)
  have b: "getBuffer (incomingBuffer debugHost0) ''zz'' = Absent"
    by (simp add: debugHost0_def getBuffer_def getSlot_emptyTable objectPrototypeNames_def)
  have c: "\<forall>x\<in>set [(0::nat, ''zz'', [1, 2::byte]), (1, ''yy'', [3])].
             getMeta (incomingFilesRef host0) (fst (snd x)) = Absent"
    by (simp add: host0_def getMeta_def getSlot_emptyTable objectPrototypeNames_def)
  have r: "receivedFiles debugHost0 = []" by (simp add: debugHost0_def)
  note uc = unknown_chunk[where hst=host0 and i="''zz''" and st=debugHost0 and now=0
      and ch="[1, 2]" and floorPct=exactPct and tchs="[(0, ''zz'', [1, 2]), (1, ''yy'', [3])]"
      and ?t0.0=0 and ?t1.0=1]
  from uc a have 1: "handleIncomingData 0 (CHUNK ''zz'' [1, 2]) host0 = Returned host0 []"
    by blast
  from uc c have "hostA_run (map (\<lambda>(t, j, ch). (t, CHUNK j ch))
      [(0, ''zz'', [1, 2]), (1, ''yy'', [3])]) host0 = Returned host0 []"
    by blast
  then have 2: "hostA_run [(0, CHUNK ''zz'' [1, 2]), (1, CHUNK ''yy'' [3])] host0
                  = Returned host0 []"
    by simp
  from uc b obtain st' where
    "handleStreamChunk exactPct (Some ''zz'') (Some [1, 2]) debugHost0
       = Returned st' [AddLog (LogUnknownChunk ''zz''), AddLog (LogFirstChunk (length [1, 2::byte]))]"
    by blast
  then have 3: "effectsOf (handleStreamChunk exactPct (Some ''zz'') (Some [1, 2]) debugHost0)
       = [AddLog (LogUnknownChunk ''zz''), AddLog (LogFirstChunk 2)]"
    by simp
  from uc b obtain st'' effs where
    "hostB_run exactPct [(0, StreamChunk ''zz'' [1, 2]), (1, FileEnd ''zz'')] debugHost0
       = Returned st'' effs"
    "receivedFiles st''
       = \<lparr>entry_id = Some ''zz'', entry_name = ''Unknown File'', entry_size = length [1, 2::byte],
          entry_url = Blob [[1, 2]] ''application/octet-stream'', timestamp = 1\<rparr>
         # receivedFiles debugHost0"
    by blast
  then have 4: "map_option (map entry_name \<circ> receivedFiles)
        (stateOf (hostB_run exactPct unannounced debugHost0)) = Some [''Unknown File'']"
    by (simp add: unannounced_def r)
  from 1 2 3 4 show ?thesis by blast
qed

text \<open>
  C4. A run of the ACK-gated send loop that finds more than 10 MiB (\<open>10 * 1024 * 1024\<close>
  bytes) buffered sends nothing and only schedules itself again after 50 ms, leaving the
  offset as it was; while that lasts no chunk is sent, and afterwards the loop goes on
  from the same offset. A run sends a chunk only if it found at most 10 MiB buffered.
\<close>

theorem backpressure_gate:
  "(bufferedAmount e > 10 * 1024 * 1024 \<longrightarrow>
      sendLoop c f i off (e # es) = SetTimeout 50 # sendLoop c f i off es)
   \<and> ((\<forall>b\<in>set bs. bufferedAmount b > 10 * 1024 * 1024) \<longrightarrow>
        sendLoop c f i off bs = replicate (length bs) (SetTimeout 50)
      \<and> sentChunks (sendLoop c f i off bs) = []
      \<and> sendLoop c f i off (bs @ es) = replicate (length bs) (SetTimeout 50) @ sendLoop c f i off es)
   \<and> (sendLoop c f i off (e # es) = Send m # rest \<longrightarrow> bufferedAmount e \<le> 10 * 1024 * 1024)"
proof (intro conjI impI)
  assume "bufferedAmount e > 10 * 1024 * 1024"
  then show "sendLoop c f i off (e # es) = SetTimeout 50 # sendLoop c f i off es" by simp
next
  assume b: "\<forall>b\<in>set bs. bufferedAmount b > 10 * 1024 * 1024"
  from sendLoop_blocked[OF b, of c f i off "[]"]
  show r: "sendLoop c f i off bs = replicate (length bs) (SetTimeout 50)" by simp
  have "sentChunks (replicate n (SetTimeout 50)) = []" for n
    by (induction n) simp_all
  with r show "sentChunks (sendLoop c f i off bs) = []" by simp
  from b show "sendLoop c f i off (bs @ es)
      = replicate (length bs) (SetTimeout 50) @ sendLoop c f i off es"
    by (rule sendLoop_blocked)
next
  assume "sendLoop c f i off (e # es) = Send m # rest"
  then show "bufferedAmount e \<le> 10 * 1024 * 1024"
    by (simp split: if_splits)
qed

text \<open>
  C4 at a channel that is above the mark for two runs of the loop and then drains.
\<close>

theorem backpressure_gate_witness:
  "sendLoop 2 abc ''t1'' 0 [fullEnv, fullEnv, okEnv]
     = [SetTimeout 50, SetTimeout 50,
        Send (CHUNK ''t1'' [1, 2]), SetUploadProgress (Ratio 2 3), SetTimeout 0]"
proof -
  have h: "\<forall>b\<in>set [fullEnv, fullEnv]. bufferedAmount b > 10 * 1024 * 1024"
    by (simp add: fullEnv_def)
  have "sendLoop 2 abc ''t1'' 0 ([fullEnv, fullEnv] @ [okEnv])
          = replicate (length [fullEnv, fullEnv]) (SetTimeout 50) @ sendLoop 2 abc ''t1'' 0 [okEnv]"
    using backpressure_gate[where c=2 and f=abc and i="''t1''" and off=0
        and bs="[fullEnv, fullEnv]" and es="[okEnv]"] h by blast
  then show ?thesis
    by (simp add: okEnv_def abc_def fsize_def slice_def)
qed

text \<open>
  C5, as stated, fails: a sender that announced the id \<open>t1\<close> and then receives an
  acknowledgement for another id starts streaming, with the chunks tagged by the
  acknowledgement's id.
\<close>

theorem ack_gate_counterexample:
  "sentMessages (snd (initiateSend (Some abc) ''t1'' sender0))
     = [Announce ''text/plain'' ''t1'' ''a.txt'' 3]
   \<and> connectToHost_onData (ACK ''other'') (fst (initiateSend (Some abc) ''t1'' sender0)) [okEnv]
     = [AddLog LogAckReceived, SetSendingState Sending,
        Send (CHUNK ''other'' [1, 2, 3]), SetUploadProgress (Ratio 16384 3), SetTimeout 0]"
  by (simp add: initiateSend_def sender0_def abc_def fsize_def connectToHost_onData_def
      startStreamingFile_def CHUNK_SIZE_def okEnv_def slice_def)

text \<open>
  C5, amended. \<^verbatim>\<open>initiateSend\<close> sends one object, with the id, the name and the size of
  the file and with the file's type in its \<^verbatim>\<open>type\<close> field, and nothing else; it does
  not set the state to sending. The sender's data listener does nothing for an object
  whose type is not \<^verbatim>\<open>'ACK'\<close>; on an acknowledgement with id \<open>j\<close>, whatever id was
  announced, it sets the state to sending and every message it then sends is a chunk
  tagged \<open>j\<close>. The receiver returns from an object of type \<^verbatim>\<open>'HEADER'\<close> with id \<open>i\<close>
  having sent the acknowledgement for \<open>i\<close>, and it sends nothing on an object of any
  other type.
\<close>

theorem ack_gate:
  "sentMessages (snd (initiateSend picked i st))
     = (case picked of
          None \<Rightarrow> []
        | Some f \<Rightarrow> if conn st then [Announce (ftype f) i (fname f) (fsize f)] else [])
   \<and> SetSendingState Sending \<notin> set (snd (initiateSend picked i st))
   \<and> (typeOf m \<noteq> ''ACK'' \<longrightarrow> connectToHost_onData m st es = [])
   \<and> (\<forall>x\<in>set (sentMessages (connectToHost_onData (ACK j) st es)). \<exists>ch. x = CHUNK j ch)
   \<and> take 2 (connectToHost_onData (ACK j) st es) = [AddLog LogAckReceived, SetSendingState Sending]
   \<and> (\<exists>st'. handleIncomingData now (HEADER i n s) hst
               = Returned st' [AddLog LogHeaderReceived, Send (ACK i)])
   \<and> (typeOf m \<noteq> ''HEADER'' \<longrightarrow> effectsOf (handleIncomingData now m hst) = [])"
proof (intro conjI impI ballI)
  show "sentMessages (snd (initiateSend picked i st))
     = (case picked of
          None \<Rightarrow> []
        | Some f \<Rightarrow> if conn st then [Announce (ftype f) i (fname f) (fsize f)] else [])"
    by (simp add: initiateSend_def split: option.split)
next
  show "SetSendingState Sending \<notin> set (snd (initiateSend picked i st))"
    by (simp add: initiateSend_def split: option.split)
next
  assume "typeOf m \<noteq> ''ACK''"
  then show "connectToHost_onData m st es = []"
    by (cases m) (simp_all add: connectToHost_onData_def)
next
  fix x
  assume "x \<in> set (sentMessages (connectToHost_onData (ACK j) st es))"
  then have "x \<in> set (case fileToSendRef st of
                         None \<Rightarrow> []
                       | Some f \<Rightarrow> sentMessages (sendLoop CHUNK_SIZE f j 0 es))"
    by (simp add: connectToHost_onData_def startStreamingFile_def split: option.splits)
  then show "\<exists>ch. x = CHUNK j ch"
    by (auto split: option.splits dest: sendLoop_only_chunks)
next
  show "take 2 (connectToHost_onData (ACK j) st es) = [AddLog LogAckReceived, SetSendingState Sending]"
    by (simp add: connectToHost_onData_def startStreamingFile_def)
next
  show "\<exists>st'. handleIncomingData now (HEADER i n s) hst
               = Returned st' [AddLog LogHeaderReceived, Send (ACK i)]"
    by (simp add: handleIncomingData_def)
next
  assume "typeOf m \<noteq> ''HEADER''"
  then show "effectsOf (handleIncomingData now m hst) = []"
    by (cases m) (simp_all add: handleIncomingData_def Let_def split: slot.split)
qed

text \<open>
  The amended C5 at a message that is not an acknowledgement arriving at the sender, at a
  message that is not of type \<^verbatim>\<open>'HEADER'\<close> arriving at the receiver, and at the
  acknowledgement of the announced id.
\<close>

theorem ack_gate_witness:
  "connectToHost_onData (CHUNK ''t1'' [1]) (fst (initiateSend (Some abc) ''t1'' sender0)) [okEnv] = []
   \<and> effectsOf (handleIncomingData 0 (Announce ''text/plain'' ''t1'' ''a.txt'' 3) host0) = []
   \<and> set (sentMessages (connectToHost_onData (ACK ''t1'')
        (fst (initiateSend (Some abc) ''t1'' sender0)) [okEnv, okEnv])) = {CHUNK ''t1'' [1, 2, 3]}"
proof -
  let ?st = "fst (initiateSend (Some abc) ''t1'' sender0)"
  have h1: "typeOf (CHUNK ''t1'' [1]) \<noteq> ''ACK''" by simp
  have h2: "typeOf (Announce ''text/plain'' ''t1'' ''a.txt'' 3) \<noteq> ''HEADER''" by simp
  from ack_gate[where m="CHUNK ''t1'' [1]" and st="?st" and es="[okEnv]"] h1
  have a: "connectToHost_onData (CHUNK ''t1'' [1]) ?st [okEnv] = []" by blast
  from ack_gate[where m="Announce ''text/plain'' ''t1'' ''a.txt'' 3" and hst=host0 and now=0] h2
  have b: "effectsOf (handleIncomingData 0 (Announce ''text/plain'' ''t1'' ''a.txt'' 3) host0) = []"
    by blast
  have c: "set (sentMessages (connectToHost_onData (ACK ''t1'') ?st [okEnv, okEnv]))
            = {CHUNK ''t1'' [1, 2, 3]}"
    by (simp add: initiateSend_def sender0_def abc_def fsize_def connectToHost_onData_def
      startStreamingFile_def CHUNK_SIZE_def okEnv_def slice_def)
  from a b c show ?thesis by blast
qed







text \<open>
  C8. Every chunk sent has length \<open>c\<close>, except that a file whose size is not a multiple of
  \<open>c\<close> ends with one chunk of \<open>size mod c\<close> bytes; both senders use
  \<open>c = 16 * 1024 = 16384\<close>.
\<close>

theorem chunk_sizes:
  assumes "0 < c" and "\<forall>e\<in>set es. permissive e" and "fsize f div c + 2 \<le> length es"
  shows "map length (sentChunks (sendLoop c f i 0 es))
           = replicate (fsize f div c) c @ (if fsize f mod c = 0 then [] else [fsize f mod c])
       \<and> map length (sentChunks (sendNextChunk c f i 0 es))
           = replicate (fsize f div c) c @ (if fsize f mod c = 0 then [] else [fsize f mod c])
       \<and> CHUNK_SIZE = 16384
       \<and> startStreamingFile i \<lparr>fileToSendRef = Some f, conn = True\<rparr> es
           = SetSendingState Sending # sendLoop 16384 f i 0 es
       \<and> sentChunks (sendFile (Some f) i True es) = sentChunks (sendNextChunk 16384 f i 0 es)"
proof -
  have fuel: "(fsize f - 0) + c \<le> length es * c"
    using enough_runs[OF assms(1,3)] by simp
  have "SetSendingState Done \<in> set (sendLoop c f i 0 es)"
    using assms(1,2) fuel by (rule sendLoop_reaches_done)
  with assms(1) have "map length (sentChunks (sendLoop c f i 0 es)) = chunkLengths c (fsize f - 0)"
    by (rule sendLoop_done_lengths)
  then have a: "map length (sentChunks (sendLoop c f i 0 es))
           = replicate (fsize f div c) c @ (if fsize f mod c = 0 then [] else [fsize f mod c])"
    by (simp add: chunkLengths_def)
  have "\<forall>e\<in>set es. isOpen e" using assms(2) by (simp add: permissive_def)
  with assms(1) have "Send (FileEnd i) \<in> set (sendNextChunk c f i 0 es)"
    using fuel by (rule sendNextChunk_reaches_end)
  with assms(1)
  have "map length (sentChunks (sendNextChunk c f i 0 es)) = chunkLengths c (fsize f - 0)"
    by (rule sendNextChunk_end_lengths)
  then have b: "map length (sentChunks (sendNextChunk c f i 0 es))
           = replicate (fsize f div c) c @ (if fsize f mod c = 0 then [] else [fsize f mod c])"
    by (simp add: chunkLengths_def)
  have k: "CHUNK_SIZE = 16384" by (simp add: CHUNK_SIZE_def)
  have d: "startStreamingFile i \<lparr>fileToSendRef = Some f, conn = True\<rparr> es
           = SetSendingState Sending # sendLoop 16384 f i 0 es"
    by (simp add: startStreamingFile_def k)
  have e: "sentChunks (sendFile (Some f) i True es) = sentChunks (sendNextChunk 16384 f i 0 es)"
    by (simp add: sendFile_def k)
  from a b k d e show ?thesis by blast
qed

text \<open>
  C8 at the three-byte file cut every two bytes: a chunk of two bytes, then one of one.
\<close>

theorem chunk_sizes_witness:
  "map length (sentChunks (sendLoop 2 abc ''t1'' 0 [okEnv, okEnv, okEnv])) = [2, 1]
   \<and> map length (sentChunks (sendNextChunk 2 abc ''t1'' 0 [okEnv, okEnv, okEnv])) = [2, 1]"
proof -
  have h1: "(0::nat) < 2" by simp
  have h2: "\<forall>e\<in>set [okEnv, okEnv, okEnv]. permissive e"
    by (simp add: okEnv_def permissive_def)
  have h3: "fsize abc div 2 + 2 \<le> length [okEnv, okEnv, okEnv]"
    by (simp add: fsize_def abc_def)
  have n: "fsize abc = 3" by (simp add: fsize_def abc_def)
  from chunk_sizes[OF h1 h2 h3, of "''t1''"] show ?thesis
    by (simp add: n)
qed

text \<open>
  C9, as stated, fails on the ACK-gated receiver: after the channel closes in the middle of
  a transfer, the buffer still holds the chunks received, the card still says receiving,
  and nothing is reported.
\<close>

theorem close_retains_buffer_counterexample:
  "hostA_run halfArrivals host0
     = Returned halfReceived [AddLog LogHeaderReceived, Send (ACK ''t1'')]
   \<and> slotMap fm_chunks (getMeta (incomingFilesRef (fst (hostA_onClose halfReceived))) ''t1'')
       = Some [[1, 2, 3]]
   \<and> slotMap receivedBytes (getMeta (incomingFilesRef (fst (hostA_onClose halfReceived))) ''t1'')
       = Some 3
   \<and> map card_status (files (fst (hostA_onClose halfReceived))) = [Receiving]
   \<and> snd (hostA_onClose halfReceived) = []"
  by (simp add: halfArrivals_def halfReceived_def host0_def handleIncomingData_def
      hostA_onClose_def Let_def getMeta_def getSlot_def putSlot_def emptyTable_def
      numeral_2_eq_2[symmetric])

text \<open>
  C9, amended. When the channel closes, the start/chunk/end receiver puts a new, empty
  table in place of its table of buffers, which then gives a buffer at no id; it adds no
  artifact, marks the connection gone and logs ``Connection Closed''. A finish message
  arriving afterwards fails with its log line, except at an id naming a member that the
  new table object inherits, where the handler throws. The ACK-gated receiver only marks
  the connection gone: buffers and cards stay as they were and nothing is reported.
\<close>

theorem channel_close:
  "incomingBuffer (fst (hostB_onClose st)) = emptyTable
   \<and> slotMap buf_chunks (getBuffer (incomingBuffer (fst (hostB_onClose st))) i) = None
   \<and> receivedFiles (fst (hostB_onClose st)) = receivedFiles st
   \<and> \<not> debugConn (fst (hostB_onClose st))
   \<and> snd (hostB_onClose st) = [AddLog LogConnectionClosed]
   \<and> finishFile now (Some i) (fst (hostB_onClose st))
       = (if i \<in> set objectPrototypeNames then Threw []
          else Returned (fst (hostB_onClose st)) [AddLog (LogBufferEmpty i)])
   \<and> incomingFilesRef (fst (hostA_onClose hst)) = incomingFilesRef hst
   \<and> files (fst (hostA_onClose hst)) = files hst
   \<and> \<not> hostConn (fst (hostA_onClose hst))
   \<and> snd (hostA_onClose hst) = []"
  by (simp add: hostB_onClose_def hostA_onClose_def finishFile_def keyOf_def getBuffer_def
      getSlot_emptyTable)

text \<open>
  C10. For a file of zero bytes, the ACK-gated sender sends its announce, an object with
  size 0 whose type is the type of the file, and on an acknowledgement it sends no message
  at all. The receiver, unless that type is \<^verbatim>\<open>'HEADER'\<close> or \<^verbatim>\<open>'CHUNK'\<close> (the type of
  a \<^verbatim>\<open>File\<close> is a MIME type in lower case, or empty), returns from the announce with
  nothing changed and nothing sent: there is no card. Given an object of type
  \<^verbatim>\<open>'HEADER'\<close> with size 0 it is left with a card that says receiving and has no URL.
  No message other than a chunk from which the handler returns changes which cards are
  completed. The start/chunk/end sender sends the start and the end message with no chunk
  between them; the receiver then finds an empty chunk list, logs the failure and adds no
  artifact.
\<close>

theorem zero_byte_transfer:
  assumes "content f = []"
  shows "sentMessages (snd (initiateSend (Some f) i \<lparr>fileToSendRef = r, conn = True\<rparr>))
           = [Announce (ftype f) i (fname f) 0]
       \<and> (ftype f \<noteq> ''HEADER'' \<and> ftype f \<noteq> ''CHUNK'' \<longrightarrow>
            hostA_run
              (zip [t1] (sentMessages (snd (initiateSend (Some f) i \<lparr>fileToSendRef = r, conn = True\<rparr>))))
              hst
              = Returned hst [])
       \<and> (\<exists>st'. handleIncomingData now (HEADER i n 0) hst
                   = Returned st' [AddLog LogHeaderReceived, Send (ACK i)]
             \<and> files st'
                 = \<lparr>card_id = i, card_name = n, sizeDisplay = 0, card_progress = Fixed 0,
                    card_status = Receiving, url = None\<rparr> # files hst)
       \<and> sentMessages (connectToHost_onData (ACK i) \<lparr>fileToSendRef = Some f, conn = True\<rparr> es) = []
       \<and> ((\<forall>j ch. m \<noteq> CHUNK j ch) \<and> handleIncomingData now m hst = Returned st' effs \<longrightarrow>
            [c \<leftarrow> files st'. card_status c = Completed]
              = [c \<leftarrow> files hst. card_status c = Completed])
       \<and> sentMessages (sendFile (Some f) i True (e # es))
           = [FileStart i (fname f) 0 (ftype f), FileEnd i]
       \<and> (\<exists>st''. hostB_run floorPct
                    (zip [t1, t2] (sentMessages (sendFile (Some f) i True (e # es)))) st
                   = Returned st''
                       [AddLog (LogFileStart (fname f)), AddLog (LogFileEnd i),
                        AddLog (LogBufferEmpty i)]
             \<and> receivedFiles st'' = receivedFiles st)"
proof -
  from assms have z: "fsize f = 0" by (simp add: fsize_def)
  have a: "sentMessages (snd (initiateSend (Some f) i \<lparr>fileToSendRef = r, conn = True\<rparr>))
           = [Announce (ftype f) i (fname f) 0]"
    by (simp add: initiateSend_def z)
  have b: "ftype f \<noteq> ''HEADER'' \<and> ftype f \<noteq> ''CHUNK'' \<longrightarrow>
            hostA_run
              (zip [t1] (sentMessages (snd (initiateSend (Some f) i \<lparr>fileToSendRef = r, conn = True\<rparr>))))
              hst
              = Returned hst []"
    by (simp add: a handleIncomingData_def)
  have h: "\<exists>st'. handleIncomingData now (HEADER i n 0) hst
                   = Returned st' [AddLog LogHeaderReceived, Send (ACK i)]
             \<and> files st'
                 = \<lparr>card_id = i, card_name = n, sizeDisplay = 0, card_progress = Fixed 0,
                    card_status = Receiving, url = None\<rparr> # files hst"
    by (simp add: handleIncomingData_def)
  have c: "sentMessages (connectToHost_onData (ACK i) \<lparr>fileToSendRef = Some f, conn = True\<rparr> es) = []"
    by (simp add: connectToHost_onData_def startStreamingFile_def sendLoop_empty_file[OF z])
  have d: "(\<forall>j ch. m \<noteq> CHUNK j ch) \<and> handleIncomingData now m hst = Returned st' effs \<longrightarrow>
            [c \<leftarrow> files st'. card_status c = Completed]
              = [c \<leftarrow> files hst. card_status c = Completed]"
    by (cases m) (auto simp: handleIncomingData_def split: if_splits slot.splits)
  have e: "sentMessages (sendFile (Some f) i True (e # es))
           = [FileStart i (fname f) 0 (ftype f), FileEnd i]"
    by (simp add: sendFile_def z)
  let ?b = "\<lparr>buf_name = fname f, buf_size = 0, buf_type = Some (ftype f), received = 0,
             buf_chunks = [], lastLog = 0, startTime = Some t1\<rparr>"
  let ?s1 = "st\<lparr>incomingBuffer := putSlot (incomingBuffer st) i ?b\<rparr>"
  have fin: "finishFile t2 (Some i) ?s1 = Returned ?s1 [AddLog (LogBufferEmpty i)]"
    by (simp add: finishFile_def keyOf_def)
  have "hostB_run floorPct [(t1, FileStart i (fname f) 0 (ftype f)), (t2, FileEnd i)] st
        = Returned ?s1
           [AddLog (LogFileStart (fname f)), AddLog (LogFileEnd i), AddLog (LogBufferEmpty i)]"
    by (simp add: hostB_onData_def fileStart_def keyOf_def fin)
  then have g: "\<exists>st''. hostB_run floorPct
                    (zip [t1, t2] (sentMessages (sendFile (Some f) i True (e # es)))) st
                   = Returned st''
                       [AddLog (LogFileStart (fname f)), AddLog (LogFileEnd i),
                        AddLog (LogBufferEmpty i)]
             \<and> receivedFiles st'' = receivedFiles st"
    by (simp add: e)
  from a b h c d e g show ?thesis by blast
qed

text \<open>
  C10 at the empty file \<open>empty.txt\<close>.
\<close>

theorem zero_byte_transfer_witness:
  "sentMessages (snd (initiateSend (Some empty_file) ''t0'' \<lparr>fileToSendRef = None, conn = True\<rparr>))
     = [Announce ''text/plain'' ''t0'' ''empty.txt'' 0]
   \<and> hostA_run
        (zip [0] (sentMessages
           (snd (initiateSend (Some empty_file) ''t0'' \<lparr>fileToSendRef = None, conn = True\<rparr>))))
        host0
       = Returned host0 []
   \<and> sentMessages (connectToHost_onData (ACK ''t0'') \<lparr>fileToSendRef = Some empty_file, conn = True\<rparr>
        [okEnv, okEnv]) = []
   \<and> [c \<leftarrow> files emptyAnnounced. card_status c = Completed] = []
   \<and> sentMessages (sendFile (Some empty_file) ''t0'' True [okEnv])
     = [FileStart ''t0'' ''empty.txt'' 0 ''text/plain'', FileEnd ''t0'']
   \<and> map_option receivedFiles (stateOf (hostB_run exactPct
        (zip [0, 1] (sentMessages (sendFile (Some empty_file) ''t0'' True [okEnv]))) debugHost0))
       = Some []"
proof -
  have h: "content empty_file = []" by (simp add: empty_file_def)
  have n: "fname empty_file = ''empty.txt''" "ftype empty_file = ''text/plain''"
    by (simp_all add: empty_file_def)
  have ty: "ftype empty_file \<noteq> ''HEADER'' \<and> ftype empty_file \<noteq> ''CHUNK''"
    by (simp add: empty_file_def)
  have r: "receivedFiles debugHost0 = []" by (simp add: debugHost0_def)
  have k: "[c \<leftarrow> files host0. card_status c = Completed] = []"
    by (simp add: host0_def)
  have q: "(\<forall>j ch. HEADER ''t0'' ''empty.txt'' 0 \<noteq> CHUNK j ch)
      \<and> handleIncomingData 0 (HEADER ''t0'' ''empty.txt'' 0) host0
          = Returned emptyAnnounced [AddLog LogHeaderReceived, Send (ACK ''t0'')]"
    by (simp add: handleIncomingData_def host0_def emptyAnnounced_def putSlot_def
        emptyTable_def)
  note zb = zero_byte_transfer[OF h, where i="''t0''" and e=okEnv and es="[]" and ?t1.0=0
      and ?t2.0=1 and st=debugHost0 and floorPct=exactPct and r=None and hst=host0 and now=0
      and m="HEADER ''t0'' ''empty.txt'' 0" and st'=emptyAnnounced
      and effs="[AddLog LogHeaderReceived, Send (ACK ''t0'')]"]
  have "sentMessages (snd (initiateSend (Some empty_file) ''t0'' \<lparr>fileToSendRef = None, conn = True\<rparr>))
     = [Announce (ftype empty_file) ''t0'' (fname empty_file) 0]"
    by (rule zb[THEN conjunct1])
  then have a: "sentMessages (snd (initiateSend (Some empty_file) ''t0'' \<lparr>fileToSendRef = None, conn = True\<rparr>))
     = [Announce ''text/plain'' ''t0'' ''empty.txt'' 0]"
    by (simp only: n)
  from zb[THEN conjunct2, THEN conjunct1] ty
  have b: "hostA_run
        (zip [0] (sentMessages
           (snd (initiateSend (Some empty_file) ''t0'' \<lparr>fileToSendRef = None, conn = True\<rparr>))))
        host0
       = Returned host0 []"
    by blast
  have c: "sentMessages (connectToHost_onData (ACK ''t0'') \<lparr>fileToSendRef = Some empty_file, conn = True\<rparr>
        [okEnv, okEnv]) = []"
    by (rule zero_byte_transfer[OF h, where i="''t0''" and es="[okEnv, okEnv]",
          THEN conjunct2, THEN conjunct2, THEN conjunct2, THEN conjunct1])
  from zb[THEN conjunct2, THEN conjunct2, THEN conjunct2, THEN conjunct2, THEN conjunct1] q
  have "[c \<leftarrow> files emptyAnnounced. card_status c = Completed]
          = [c \<leftarrow> files host0. card_status c = Completed]"
    by blast
  then have d: "[c \<leftarrow> files emptyAnnounced. card_status c = Completed] = []"
    by (simp only: k)
  have "sentMessages (sendFile (Some empty_file) ''t0'' True [okEnv])
     = [FileStart ''t0'' (fname empty_file) 0 (ftype empty_file), FileEnd ''t0'']"
    by (rule zb[THEN conjunct2, THEN conjunct2, THEN conjunct2, THEN conjunct2, THEN conjunct2,
          THEN conjunct1])
  then have e: "sentMessages (sendFile (Some empty_file) ''t0'' True [okEnv])
     = [FileStart ''t0'' ''empty.txt'' 0 ''text/plain'', FileEnd ''t0'']"
    by (simp only: n)
  from zb[THEN conjunct2, THEN conjunct2, THEN conjunct2, THEN conjunct2, THEN conjunct2,
          THEN conjunct2]
  obtain st'' where "hostB_run exactPct
        (zip [0, 1] (sentMessages (sendFile (Some empty_file) ''t0'' True [okEnv]))) debugHost0
       = Returned st'' [AddLog (LogFileStart (fname empty_file)), AddLog (LogFileEnd ''t0''),
                        AddLog (LogBufferEmpty ''t0'')]"
    "receivedFiles st'' = receivedFiles debugHost0"
    by blast
  then have g: "map_option receivedFiles (stateOf (hostB_run exactPct
        (zip [0, 1] (sentMessages (sendFile (Some empty_file) ''t0'' True [okEnv]))) debugHost0))
       = Some []"
    by (simp add: r)
  from a b c d e g show ?thesis by blast
qed

end
